theory Spec2Isabelle
  imports Main "HOL-Library.Sublist"
begin

text \<open>
  A verification development for the two import-rewriting scripts of the repository,
  \<^verbatim>\<open>scripts/fix-imports.py\<close> and \<^verbatim>\<open>scripts/final-import-fix.py\<close>. The first sections
  embed the scripts: the string primitives they call, their rule tables, their per-file
  functions and their \<^verbatim>\<open>main\<close> functions, over an explicit model of the files and the
  console. Both scripts name their entry point \<^verbatim>\<open>main\<close>; here they are \<open>main_imports\<close>
  and \<open>main_final\<close>. The later sections analyse the rule tables and the loops, and the
  last one states what each claim of the specification comes to on this code.
\<close>

section \<open>Strings and the two substitution primitives\<close>

text \<open>
  The scripts read each file as text (\<^verbatim>\<open>encoding='utf-8'\<close>) and work on the whole
  content as one Python \<^verbatim>\<open>str\<close>. A content is modelled as a \<^typ>\<open>string\<close>; a code point
  beyond ASCII stands as its UTF-8 bytes. Every rule of both scripts is pure ASCII, and an
  ASCII byte never occurs inside a multi-byte UTF-8 sequence, so searching and replacing
  on the bytes agrees with searching and replacing on the code points.
\<close>

abbreviation sq :: char where "sq \<equiv> CHR 0x27"
abbreviation dq :: char where "dq \<equiv> CHR 0x22"

text \<open>\<^verbatim>\<open>old in content\<close>: the substring test of Python's \<^verbatim>\<open>str\<close>.\<close>

fun str_in :: "string \<Rightarrow> string \<Rightarrow> bool" where
  "str_in old [] = (old = [])"
| "str_in old (c # cs) = (prefix old (c # cs) \<or> str_in old cs)"

text \<open>
  \<^verbatim>\<open>content.replace(old, new)\<close>: every non-overlapping occurrence of \<^verbatim>\<open>old\<close>, found from
  left to right, is replaced; the scan resumes after the replaced occurrence and never
  looks into the text it has just produced. With an empty \<^verbatim>\<open>old\<close> Python puts \<^verbatim>\<open>new\<close>
  before every character and at the end.
\<close>

fun replace :: "string \<Rightarrow> string \<Rightarrow> string \<Rightarrow> string" where
  "replace content [] new = new @ concat (map (\<lambda>c. c # new) content)"
| "replace [] (a # old) new = []"
| "replace (c # cs) (a # old) new =
     (if prefix (a # old) (c # cs)
      then new @ replace (drop (length old) cs) (a # old) new
      else c # replace cs (a # old) new)"

text \<open>
  The regular expressions of \<^verbatim>\<open>FIXES\<close> use three constructs only: a literal character,
  an escaped character (\<^verbatim>\<open>\.\<close> and \<^verbatim>\<open>\/\<close>, which stand for the character itself) and the
  character class \<^verbatim>\<open>['\"]\<close> (a single or a double quote). A compiled pattern is therefore a
  list of atoms, each of which consumes exactly one character.
\<close>

datatype atom = Lit char | OneOf "char list"

fun atom_ok :: "atom \<Rightarrow> char \<Rightarrow> bool" where
  "atom_ok (Lit a) c = (a = c)"
| "atom_ok (OneOf as) c = (c \<in> set as)"

text \<open>\<^verbatim>\<open>pattern.match(string)\<close>: the pattern matches a prefix of the string.\<close>

fun match_here :: "atom list \<Rightarrow> string \<Rightarrow> bool" where
  "match_here [] s = True"
| "match_here (a # as) [] = False"
| "match_here (a # as) (c # cs) = (atom_ok a c \<and> match_here as cs)"

text \<open>\<^verbatim>\<open>re.fullmatch(pattern, string) is not None\<close>: every atom consumes one character.\<close>

definition re_fullmatch :: "atom list \<Rightarrow> string \<Rightarrow> bool" where
  "re_fullmatch p s = (match_here p s \<and> length s = length p)"

text \<open>\<^verbatim>\<open>re.search(pattern, string) is not None\<close>.\<close>

fun re_search :: "atom list \<Rightarrow> string \<Rightarrow> bool" where
  "re_search p [] = match_here p []"
| "re_search p (c # cs) = (match_here p (c # cs) \<or> re_search p cs)"

text \<open>
  \<^verbatim>\<open>re.sub(pattern, repl, string)\<close>: the leftmost non-overlapping matches are replaced by
  \<^verbatim>\<open>repl\<close>. The replacement templates of \<^verbatim>\<open>FIXES\<close> hold no backslash, so each one is
  inserted as it stands. An empty pattern matches at every position.
\<close>

fun re_sub :: "atom list \<Rightarrow> string \<Rightarrow> string \<Rightarrow> string" where
  "re_sub [] repl s = repl @ concat (map (\<lambda>c. c # repl) s)"
| "re_sub (a # as) repl [] = []"
| "re_sub (a # as) repl (c # cs) =
     (if match_here (a # as) (c # cs)
      then repl @ re_sub (a # as) repl (drop (length as) cs)
      else c # re_sub (a # as) repl cs)"

section \<open>\<^verbatim>\<open>scripts/fix-imports.py\<close>: the rule table and the substitution pass\<close>

text \<open>
  \<^verbatim>\<open>IMPORT_MAP\<close> is a dict literal; \<^verbatim>\<open>.items()\<close> yields its entries in insertion order, and
  no key is repeated, so it is the association list below.
\<close>

definition IMPORT_MAP :: "(string \<times> string) list" where
  "IMPORT_MAP =
    [(''@/lib/feed-cache'', ''@/lib/caching/feed-cache''),
     (''@/lib/program-registry'', ''@/lib/solana/program-registry''),
     (''@/lib/program-activity'', ''@/lib/solana/program-activity''),
     (''@/lib/solana-connection-client'', ''@/lib/solana/solana-connection-client''),
     (''@/lib/solana-connection-server'', ''@/lib/solana/solana-connection-server''),
     (''@/lib/logger'', ''@/lib/logging/logger''),
     (''@/lib/ai-service-client'', ''@/lib/ai/ai-service-client''),
     (''@/lib/graph-state-cache'', ''@/lib/caching/graph-state-cache''),
     (''@/lib/anomaly-patterns'', ''@/lib/analytics/anomaly-patterns''),
     (''@/lib/configurable-anomaly-patterns'', ''@/lib/analytics/configurable-anomaly-patterns''),
     (''@/lib/sse-manager'', ''@/lib/api/sse-manager''),
     (''@/lib/rate-limit'', ''@/lib/api/rate-limit''),
     (''@/lib/rate-limiter-tiers'', ''@/lib/api/rate-limiter-tiers''),
     (''@/lib/moralis-api'', ''@/lib/external-apis/moralis-api''),
     (''@/lib/transaction-constants'', ''@/lib/blockchain/transaction-constants''),
     (''./solana-connection-client'', ''./solana/solana-connection-client''),
     (''./opensvm-rpc'', ''./solana/rpc/opensvm-rpc''),
     (''./rate-limit'', ''./api/rate-limit''),
     (''./logger'', ''./logging/logger''),
     (''./user-history-utils'', ''./user/user-history-utils''),
     (''./user/user-history-utils'', ''../user/user-history-utils'')]"

text \<open>\<^verbatim>\<open>f"from '{path}'"\<close> and \<^verbatim>\<open>f'from "{path}"'\<close>, by the quote character.\<close>

definition from_lit :: "char \<Rightarrow> string \<Rightarrow> string" where
  "from_lit q path = ''from '' @ q # path @ [q]"

text \<open>The list \<^verbatim>\<open>patterns\<close> built for one entry: single quotes first, then double quotes.\<close>

definition patterns :: "string \<Rightarrow> string \<Rightarrow> (string \<times> string) list" where
  "patterns old_path new_path =
     [(from_lit sq old_path, from_lit sq new_path),
      (from_lit dq old_path, from_lit dq new_path)]"

text \<open>
  The body of the inner loop, on the pair of the loop's two variables
  \<^verbatim>\<open>(content, changes_made)\<close>.
\<close>

definition apply_pattern :: "string \<times> bool \<Rightarrow> string \<times> string \<Rightarrow> string \<times> bool" where
  "apply_pattern st pat =
     (case (st, pat) of ((content, changes_made), (old_pattern, new_pattern)) \<Rightarrow>
        if str_in old_pattern content
        then (replace content old_pattern new_pattern, True)
        else (content, changes_made))"

definition apply_entry :: "string \<times> bool \<Rightarrow> string \<times> string \<Rightarrow> string \<times> bool" where
  "apply_entry st entry =
     (case entry of (old_path, new_path) \<Rightarrow> foldl apply_pattern st (patterns old_path new_path))"

text \<open>
  The whole substitution pass of \<^verbatim>\<open>fix_imports_in_file\<close>: from the content read to the
  final content and the flag \<^verbatim>\<open>changes_made\<close>.
\<close>

definition rewrite_imports :: "string \<Rightarrow> string \<times> bool" where
  "rewrite_imports content = foldl apply_entry (content, False) IMPORT_MAP"

section \<open>\<^verbatim>\<open>scripts/final-import-fix.py\<close>: the rule table and the substitution pass\<close>

definition lits :: "string \<Rightarrow> atom list" where
  "lits s = map Lit s"

text \<open>
  The regular expression \<^verbatim>\<open>from ['\"]PATH['\"]\<close>, where \<^verbatim>\<open>PATH\<close> is written in the source
  with every dot and slash of the relative paths escaped.
\<close>

definition from_re :: "string \<Rightarrow> atom list" where
  "from_re path = lits ''from '' @ OneOf [sq, dq] # lits path @ [OneOf [sq, dq]]"

definition FIXES :: "(atom list \<times> string) list" where
  "FIXES =
    [(from_re ''../../../lib/solana-connection-server'',
        from_lit sq ''@/lib/solana/solana-connection-server''),
     (from_re ''../../../../lib/auth-server'',
        from_lit sq ''@/lib/api-auth/auth-server''),
     (from_re ''../../../../../lib/qdrant'',
        from_lit sq ''@/lib/search/qdrant''),
     (from_re ''../../../../lib/qdrant-search-suggestions'',
        from_lit sq ''@/lib/search/qdrant-search-suggestions''),
     (from_re ''@/lib/program-metadata-cache'',
        from_lit sq ''@/lib/solana/program-metadata-cache'')]"

text \<open>The loop \<^verbatim>\<open>for pattern, replacement in FIXES: content = re.sub(...)\<close>.\<close>

definition apply_fix :: "string \<Rightarrow> atom list \<times> string \<Rightarrow> string" where
  "apply_fix content fix = (case fix of (pattern, replacement) \<Rightarrow> re_sub pattern replacement content)"

definition apply_fixes :: "string \<Rightarrow> string" where
  "apply_fixes content = foldl apply_fix content FIXES"

section \<open>The environment: files, console and directory listing\<close>

text \<open>
  Both scripts touch the outside world through \<^verbatim>\<open>open\<close>, \<^verbatim>\<open>print\<close> and \<^verbatim>\<open>Path.rglob\<close> only.
  The exceptions these raise are values; each carries the text that \<^verbatim>\<open>str(e)\<close> gives.
\<close>

type_synonym path = string

datatype py_exception =
    FileNotFoundError string
  | PermissionError string
  | IsADirectoryError string
  | UnicodeDecodeError string
  | ValueError string

fun str_exc :: "py_exception \<Rightarrow> string" where
  "str_exc (FileNotFoundError m) = m"
| "str_exc (PermissionError m) = m"
| "str_exc (IsADirectoryError m) = m"
| "str_exc (UnicodeDecodeError m) = m"
| "str_exc (ValueError m) = m"

text \<open>
  What the file system holds under a path: the decoded text, the exception (if any) that
  opening the path for reading or decoding its bytes raises, and the exception (if any)
  that opening it for writing raises.
\<close>

record file_state =
  text_of :: string
  read_error :: "py_exception option"
  write_error :: "py_exception option"

text \<open>
  The world: the disk, the paths that exist below the scanned roots (in the order in which
  a traversal yields them), what has been printed on the two console streams (one entry per
  \<^verbatim>\<open>print\<close> call), and the log of every call of \<^verbatim>\<open>open\<close> with its mode, kept to state
  which files a run opens.
\<close>

record world =
  disk :: "path \<Rightarrow> file_state"
  listing :: "path list"
  stdout :: "string list"
  stderr :: "string list"
  opened :: "(path \<times> string) list"

definition print :: "string \<Rightarrow> world \<Rightarrow> world" where
  "print line w = w\<lparr>stdout := stdout w @ [line]\<rparr>"

text \<open>\<^verbatim>\<open>with open(filepath, 'r', encoding='utf-8') as f: content = f.read()\<close>\<close>

definition read_text :: "world \<Rightarrow> path \<Rightarrow> (py_exception + string) \<times> world" where
  "read_text w filepath =
     (let w1 = w\<lparr>opened := opened w @ [(filepath, ''r'')]\<rparr>
      in case read_error (disk w filepath) of
           Some e \<Rightarrow> (Inl e, w1)
         | None \<Rightarrow> (Inr (text_of (disk w filepath)), w1))"

text \<open>
  \<^verbatim>\<open>with open(filepath, 'w', encoding='utf-8') as f: f.write(content)\<close>. A write either
  raises when the file is opened, and leaves it as it was, or stores the whole new text.
\<close>

definition write_text :: "world \<Rightarrow> path \<Rightarrow> string \<Rightarrow> py_exception option \<times> world" where
  "write_text w filepath content =
     (let w1 = w\<lparr>opened := opened w @ [(filepath, ''w'')]\<rparr>
      in case write_error (disk w filepath) of
           Some e \<Rightarrow> (Some e, w1)
         | None \<Rightarrow> (None, w1\<lparr>disk := (disk w1)(filepath := (disk w1 filepath)\<lparr>text_of := content\<rparr>)\<rparr>))"

text \<open>The final component of a path (\<^verbatim>\<open>Path.name\<close>).\<close>

definition name_of :: "path \<Rightarrow> string" where
  "name_of p = rev (takeWhile (\<lambda>c. c \<noteq> CHR ''/'') (rev p))"

text \<open>
  \<^verbatim>\<open>fnmatch\<close> for the two patterns the scripts use, \<^verbatim>\<open>*.ts\<close> and \<^verbatim>\<open>*.tsx\<close>: a star followed
  by literal characters matches the names that end with them.
\<close>

fun fnmatch :: "string \<Rightarrow> string \<Rightarrow> bool" where
  "fnmatch name [] = (name = [])"
| "fnmatch name (c # pat) = (if c = CHR ''*'' then suffix pat name else name = c # pat)"

text \<open>\<^verbatim>\<open>dir.rglob(pattern)\<close>: every path below \<^verbatim>\<open>dir\<close>, at any depth, whose name matches.\<close>

definition rglob :: "world \<Rightarrow> path \<Rightarrow> string \<Rightarrow> path list" where
  "rglob w dir pattern =
     filter (\<lambda>p. prefix (dir @ ''/'') p \<and> fnmatch (name_of p) pattern) (listing w)"

definition exists :: "world \<Rightarrow> path \<Rightarrow> bool" where
  "exists w dir = list_ex (\<lambda>p. p = dir \<or> prefix (dir @ ''/'') p) (listing w)"

text \<open>\<^verbatim>\<open>filepath.relative_to(root)\<close> raises \<^verbatim>\<open>ValueError\<close> for a path that is not below the root.\<close>

definition relative_to :: "path \<Rightarrow> path \<Rightarrow> py_exception + path" where
  "relative_to filepath root =
     (if prefix (root @ ''/'') filepath then Inr (drop (length root + 1) filepath)
      else Inl (ValueError (filepath @ '' is not in the subpath of '' @ root)))"

text \<open>The decimal text of a counter, as an f-string prints it.\<close>

fun str_nat :: "nat \<Rightarrow> string" where
  "str_nat n =
     (if n < 10 then [''0123456789'' ! n]
      else str_nat (n div 10) @ [''0123456789'' ! (n mod 10)])"

text \<open>The two symbols the scripts print, U+2713 and U+2728, as UTF-8.\<close>

definition check_mark :: string where
  "check_mark = [CHR 0xE2, CHR 0x9C, CHR 0x93]"

definition sparkles :: string where
  "sparkles = [CHR 0xE2, CHR 0x9C, CHR 0xA8]"

text \<open>
  A \<^verbatim>\<open>for\<close> loop whose body may raise: the first exception ends the loop and is passed on.
\<close>

fun for_each :: "('s \<Rightarrow> 'a \<Rightarrow> py_exception + 's) \<Rightarrow> 's \<Rightarrow> 'a list \<Rightarrow> py_exception + 's" where
  "for_each body st [] = Inr st"
| "for_each body st (x # xs) =
     (case body st x of Inl e \<Rightarrow> Inl e | Inr st' \<Rightarrow> for_each body st' xs)"

text \<open>
  Neither script calls \<^verbatim>\<open>sys.exit\<close>: the interpreter ends with status 0 when \<^verbatim>\<open>main\<close>
  returns and with status 1 when an exception leaves it.
\<close>

definition exit_code :: "py_exception + world \<Rightarrow> nat" where
  "exit_code r = (case r of Inl e \<Rightarrow> 1 | Inr w \<Rightarrow> 0)"

section \<open>\<^verbatim>\<open>scripts/fix-imports.py\<close>: \<^verbatim>\<open>fix_imports_in_file\<close> and \<^verbatim>\<open>main\<close>\<close>

text \<open>
  \<^verbatim>\<open>except Exception\<close> catches whatever \<^verbatim>\<open>open\<close>, \<^verbatim>\<open>read\<close> and \<^verbatim>\<open>write\<close> raise; the function
  then prints one line and returns \<^verbatim>\<open>False\<close>.
\<close>

definition fix_imports_in_file :: "world \<Rightarrow> path \<Rightarrow> bool \<times> world" where
  "fix_imports_in_file w filepath =
     (case read_text w filepath of
        (Inl e, w1) \<Rightarrow>
          (False, print (''Error processing '' @ filepath @ '': '' @ str_exc e) w1)
      | (Inr content, w1) \<Rightarrow>
          (case rewrite_imports content of
             (content', changes_made) \<Rightarrow>
               if changes_made
               then (case write_text w1 filepath content' of
                       (Some e, w2) \<Rightarrow>
                         (False, print (''Error processing '' @ filepath @ '': '' @ str_exc e) w2)
                     | (None, w2) \<Rightarrow> (True, w2))
               else (False, w1)))"

definition root :: path where
  "root = ''/home/larp/aldrin/opensvm''"

definition dirs_to_scan :: "string list" where
  "dirs_to_scan = [''app'', ''components'', ''lib'', ''hooks'', ''contexts'', ''utils'', ''types'']"

text \<open>The innermost loop body, on \<^verbatim>\<open>(total_files, fixed_files)\<close> and the world.\<close>

definition visit_imports :: "nat \<times> nat \<times> world \<Rightarrow> path \<Rightarrow> py_exception + nat \<times> nat \<times> world" where
  "visit_imports st filepath =
     (case st of (total_files, fixed_files, w) \<Rightarrow>
        (case fix_imports_in_file w filepath of
           (changed, w1) \<Rightarrow>
             if changed
             then (case relative_to filepath root of
                     Inl e \<Rightarrow> Inl e
                   | Inr rel \<Rightarrow>
                       Inr (total_files + 1, fixed_files + 1,
                            print (check_mark @ '' Fixed: '' @ rel) w1))
             else Inr (total_files + 1, fixed_files, w1)))"

definition scan_ext :: "path \<Rightarrow> nat \<times> nat \<times> world \<Rightarrow> string \<Rightarrow> py_exception + nat \<times> nat \<times> world" where
  "scan_ext dir_path st ext =
     (case st of (total_files, fixed_files, w) \<Rightarrow>
        for_each visit_imports st (rglob w dir_path ext))"

definition scan_dir :: "nat \<times> nat \<times> world \<Rightarrow> string \<Rightarrow> py_exception + nat \<times> nat \<times> world" where
  "scan_dir st dir_name =
     (case st of (total_files, fixed_files, w) \<Rightarrow>
        let dir_path = root @ ''/'' @ dir_name
        in if \<not> exists w dir_path then Inr st
           else for_each (scan_ext dir_path) st [''*.ts'', ''*.tsx''])"

definition summary_imports :: "nat \<Rightarrow> nat \<Rightarrow> string" where
  "summary_imports fixed_files total_files =
     CHR 0x0A # sparkles @ '' Complete! Fixed '' @ str_nat fixed_files @ ''/''
       @ str_nat total_files @ '' files''"

text \<open>\<^verbatim>\<open>main\<close> of \<^verbatim>\<open>fix-imports.py\<close>.\<close>

definition main_imports :: "world \<Rightarrow> py_exception + world" where
  "main_imports w =
     (case for_each scan_dir (0, 0, w) dirs_to_scan of
        Inl e \<Rightarrow> Inl e
      | Inr (total_files, fixed_files, w1) \<Rightarrow>
          Inr (print (summary_imports fixed_files total_files) w1))"

section \<open>\<^verbatim>\<open>scripts/final-import-fix.py\<close>: \<^verbatim>\<open>fix_file\<close> and \<^verbatim>\<open>main\<close>\<close>

definition fix_file :: "world \<Rightarrow> path \<Rightarrow> bool \<times> world" where
  "fix_file w filepath =
     (case read_text w filepath of
        (Inl e, w1) \<Rightarrow> (False, print (''Error: '' @ filepath @ '': '' @ str_exc e) w1)
      | (Inr content, w1) \<Rightarrow>
          (let original = content; content' = apply_fixes content
           in if content' \<noteq> original
              then (case write_text w1 filepath content' of
                      (Some e, w2) \<Rightarrow>
                        (False, print (''Error: '' @ filepath @ '': '' @ str_exc e) w2)
                    | (None, w2) \<Rightarrow> (True, w2))
              else (False, w1)))"

definition ROOT :: path where
  "ROOT = ''/home/larp/aldrin/opensvm''"

text \<open>
  The innermost loop body, on the counter \<^verbatim>\<open>fixed\<close> and the world; the first branch is
  the \<^verbatim>\<open>continue\<close>.
\<close>

definition visit_final :: "nat \<times> world \<Rightarrow> path \<Rightarrow> py_exception + nat \<times> world" where
  "visit_final st filepath =
     (case st of (fixed, w) \<Rightarrow>
        if str_in ''node_modules'' filepath \<or> str_in ''.next'' filepath then Inr (fixed, w)
        else (case fix_file w filepath of
                (changed, w1) \<Rightarrow>
                  if changed
                  then (case relative_to filepath ROOT of
                          Inl e \<Rightarrow> Inl e
                        | Inr rel \<Rightarrow> Inr (fixed + 1, print (check_mark @ '' '' @ rel) w1))
                  else Inr (fixed, w1)))"

definition scan_final :: "nat \<times> world \<Rightarrow> string \<Rightarrow> py_exception + nat \<times> world" where
  "scan_final st ext = (case st of (fixed, w) \<Rightarrow> for_each visit_final st (rglob w ROOT ext))"

definition summary_final :: "nat \<Rightarrow> string" where
  "summary_final fixed = CHR 0x0A # sparkles @ '' Fixed '' @ str_nat fixed @ '' files''"

text \<open>\<^verbatim>\<open>main\<close> of \<^verbatim>\<open>final-import-fix.py\<close>.\<close>

definition main_final :: "world \<Rightarrow> py_exception + world" where
  "main_final w =
     (case for_each scan_final (0, w) [''*.ts'', ''*.tsx''] of
        Inl e \<Rightarrow> Inl e
      | Inr (fixed, w1) \<Rightarrow> Inr (print (summary_final fixed) w1))"

section \<open>What the two \<^verbatim>\<open>main\<close> functions traverse\<close>

text \<open>
  The paths that the loops of \<^verbatim>\<open>final-import-fix.py\<close> visit, in order: the result of
  \<^verbatim>\<open>ROOT.rglob('*.ts')\<close> followed by the result of \<^verbatim>\<open>ROOT.rglob('*.tsx')\<close>; and the test
  that makes the loop body \<^verbatim>\<open>continue\<close>.
\<close>

definition final_files :: "world \<Rightarrow> path list" where
  "final_files w = rglob w ROOT ''*.ts'' @ rglob w ROOT ''*.tsx''"

definition excluded :: "path \<Rightarrow> bool" where
  "excluded p = (str_in ''node_modules'' p \<or> str_in ''.next'' p)"

text \<open>
  The paths that the loops of \<^verbatim>\<open>fix-imports.py\<close> visit: for each name of
  \<^verbatim>\<open>dirs_to_scan\<close> in turn, the two \<^verbatim>\<open>rglob\<close> results below that directory (both are
  empty when the directory does not exist).
\<close>

definition dir_files :: "world \<Rightarrow> string \<Rightarrow> path list" where
  "dir_files w dir_name =
     rglob w (root @ ''/'' @ dir_name) ''*.ts'' @ rglob w (root @ ''/'' @ dir_name) ''*.tsx''"

definition imports_files :: "world \<Rightarrow> path list" where
  "imports_files w = concat (map (dir_files w) dirs_to_scan)"

section \<open>An example tree\<close>

text \<open>
  A small source tree on which the two scripts are run in the examples: files that match
  rules of one script or the other, a file that matches none, a file that cannot be read,
  a file that can be read but not written, a file inside \<^verbatim>\<open>node_modules\<close>, and a file whose
  name merely contains \<^verbatim>\<open>.next\<close>.
\<close>

definition readable_file :: "string \<Rightarrow> file_state" where
  "readable_file s = \<lparr>text_of = s, read_error = None, write_error = None\<rparr>"

definition readonly_file :: "string \<Rightarrow> file_state" where
  "readonly_file s =
     \<lparr>text_of = s, read_error = None,
      write_error = Some (PermissionError ''[Errno 13] Permission denied'')\<rparr>"

definition locked_file :: file_state where
  "locked_file =
     \<lparr>text_of = [], read_error = Some (PermissionError ''[Errno 13] Permission denied''),
      write_error = Some (PermissionError ''[Errno 13] Permission denied'')\<rparr>"

definition missing_file :: file_state where
  "missing_file =
     \<lparr>text_of = [], read_error = Some (FileNotFoundError ''[Errno 2] No such file or directory''),
      write_error = None\<rparr>"

definition demo_files :: "(path \<times> file_state) list" where
  "demo_files =
    [(ROOT @ ''/app/page.tsx'',
        readable_file (''import { a } '' @ from_lit dq ''@/lib/feed-cache'' @ ''; import { b } ''
          @ from_lit dq ''@/lib/program-metadata-cache'')),
     (ROOT @ ''/app/locked.ts'', locked_file),
     (ROOT @ ''/app/api/route.ts'',
        readable_file (''import { c } '' @ from_lit sq ''../../../lib/solana-connection-server'')),
     (ROOT @ ''/app/app.next.tsx'',
        readable_file (''import { d } '' @ from_lit sq ''@/lib/program-metadata-cache'')),
     (ROOT @ ''/app/node_modules/pkg/index.ts'',
        readable_file (''import { e } '' @ from_lit sq ''@/lib/program-metadata-cache'')),
     (ROOT @ ''/lib/utils/history.ts'',
        readable_file (''import { h } '' @ from_lit sq ''./user-history-utils'')),
     (ROOT @ ''/lib/readonly.ts'',
        readonly_file (''import { l } '' @ from_lit sq ''@/lib/logger'' @ ''; import { m } ''
          @ from_lit sq ''@/lib/program-metadata-cache'')),
     (ROOT @ ''/lib/log.ts'', readable_file (''import { l } '' @ from_lit sq ''@/lib/logger'')),
     (ROOT @ ''/lib/clean.ts'', readable_file ''export const x = 1;'')]"

definition demo_world :: world where
  "demo_world =
     \<lparr>disk = (\<lambda>p. case map_of demo_files p of Some f \<Rightarrow> f | None \<Rightarrow> missing_file),
      listing = map fst demo_files, stdout = [], stderr = [], opened = []\<rparr>"


section \<open>Notions used in the analysis of the rule tables\<close>

text \<open>
  Why a substitution cannot create or destroy an occurrence of another pattern is a matter
  of overlaps. A pattern and a string \<^emph>\<open>agree\<close> when they match on as many characters as
  both have. A pattern \<open>q\<close> and a string \<open>n\<close> are \<^emph>\<open>apart\<close> when no non-empty tail of \<open>q\<close>
  agrees with \<open>n\<close> and \<open>q\<close> agrees with no non-empty tail of \<open>n\<close>: then a match of \<open>q\<close> and
  an occurrence of \<open>n\<close> in the same text never share a character.
\<close>

fun agree :: "atom list \<Rightarrow> string \<Rightarrow> bool" where
  "agree [] s = True"
| "agree (a # as) [] = True"
| "agree (a # as) (c # cs) = (atom_ok a c \<and> agree as cs)"

fun pat_tails_free :: "atom list \<Rightarrow> string \<Rightarrow> bool" where
  "pat_tails_free [] n = True"
| "pat_tails_free (a # as) n = (\<not> agree (a # as) n \<and> pat_tails_free as n)"

fun str_tails_free :: "atom list \<Rightarrow> string \<Rightarrow> bool" where
  "str_tails_free q [] = True"
| "str_tails_free q (c # cs) = (\<not> agree q (c # cs) \<and> str_tails_free q cs)"

definition apart :: "atom list \<Rightarrow> string \<Rightarrow> bool" where
  "apart q n = (pat_tails_free q n \<and> str_tails_free q n)"

text \<open>
  Every pattern and every replacement of both scripts is the word \<^verbatim>\<open>from\<close>, a blank, a
  quote, a path and a quote, and no path of the tables holds a blank or a quote (it is
  \<^emph>\<open>plain\<close>). \<open>from_pat\<close> is such a pattern with the two quote positions as atoms,
  \<open>from_str\<close> such a string with the two quote characters.
\<close>

definition is_quote :: "char \<Rightarrow> bool" where
  "is_quote c = (c = sq \<or> c = dq)"

definition plain :: "string \<Rightarrow> bool" where
  "plain b = list_all (\<lambda>c. c \<noteq> CHR '' '' \<and> \<not> is_quote c) b"

fun quote_atom :: "atom \<Rightarrow> bool" where
  "quote_atom (Lit c) = is_quote c"
| "quote_atom (OneOf cs) = list_all is_quote cs"

definition from_pat :: "atom \<Rightarrow> string \<Rightarrow> atom \<Rightarrow> atom list" where
  "from_pat Q1 b Q2 = lits ''from '' @ Q1 # lits b @ [Q2]"

definition from_str :: "char \<Rightarrow> string \<Rightarrow> char \<Rightarrow> string" where
  "from_str q1 b q2 = ''from '' @ q1 # b @ [q2]"

text \<open>
  Both substitution passes are one sweep over a table of (old path, new path) entries in
  which every entry is applied once per \<^emph>\<open>style\<close>: the two atoms at the quote positions of
  the pattern and the quote character of the replacement. \<^verbatim>\<open>fix-imports.py\<close> has two
  styles, single quotes to single quotes and double quotes to double quotes;
  \<^verbatim>\<open>final-import-fix.py\<close> has one, either quote to single quotes.
\<close>

type_synonym style = "atom \<times> atom \<times> char"

definition style_ok :: "style \<Rightarrow> bool" where
  "style_ok st = (case st of (Q1, Q2, q) \<Rightarrow> quote_atom Q1 \<and> quote_atom Q2 \<and> is_quote q)"

definition step :: "string \<times> string \<Rightarrow> string \<Rightarrow> style \<Rightarrow> string" where
  "step e c st =
     (case (e, st) of ((old, new), (Q1, Q2, q)) \<Rightarrow>
        re_sub (from_pat Q1 old Q2) (from_str q new q) c)"

definition entry_step :: "style list \<Rightarrow> string \<Rightarrow> string \<times> string \<Rightarrow> string" where
  "entry_step styles c e = foldl (step e) c styles"

definition sweep :: "style list \<Rightarrow> (string \<times> string) list \<Rightarrow> string \<Rightarrow> string" where
  "sweep styles entries c = foldl (entry_step styles) c entries"

definition styles_imports :: "style list" where
  "styles_imports = [(Lit sq, Lit sq, sq), (Lit dq, Lit dq, dq)]"

definition styles_final :: "style list" where
  "styles_final = [(OneOf [sq, dq], OneOf [sq, dq], sq)]"

text \<open>The old and new paths of \<^verbatim>\<open>FIXES\<close>, entry by entry.\<close>

definition FIX_PATHS :: "(string \<times> string) list" where
  "FIX_PATHS =
    [(''../../../lib/solana-connection-server'', ''@/lib/solana/solana-connection-server''),
     (''../../../../lib/auth-server'', ''@/lib/api-auth/auth-server''),
     (''../../../../../lib/qdrant'', ''@/lib/search/qdrant''),
     (''../../../../lib/qdrant-search-suggestions'', ''@/lib/search/qdrant-search-suggestions''),
     (''@/lib/program-metadata-cache'', ''@/lib/solana/program-metadata-cache'')]"

text \<open>
  No import of the path \<open>b\<close>, in any style, is left in the content; and some import of the
  old path of an entry of \<^verbatim>\<open>IMPORT_MAP\<close> occurs in the content.
\<close>

definition absent :: "style list \<Rightarrow> string \<Rightarrow> string \<Rightarrow> bool" where
  "absent styles b c = list_all (\<lambda>st. \<not> re_search (from_pat (fst st) b (fst (snd st))) c) styles"

definition occurs :: "string \<Rightarrow> string \<times> string \<Rightarrow> bool" where
  "occurs c e = (str_in (from_lit sq (fst e)) c \<or> str_in (from_lit dq (fst e)) c)"

text \<open>
  The condition on a table under which a sweep leaves none of its patterns behind: the
  paths are plain, and no new path is the old path of its own entry or of an earlier one.
  (A new path may be the old path of a \<^emph>\<open>later\<close> entry; \<^verbatim>\<open>IMPORT_MAP\<close> has one such pair.)
\<close>

fun entries_ok :: "string list \<Rightarrow> (string \<times> string) list \<Rightarrow> bool" where
  "entries_ok seen [] = True"
| "entries_ok seen ((old, new) # rest) =
     (plain old \<and> plain new \<and> new \<notin> set (old # seen) \<and> entries_ok (old # seen) rest)"

text \<open>
  Where an import ends up: \<open>route\<close> follows the import with quotes \<open>q1\<close>, \<open>q2\<close> and path
  \<open>b\<close> through the table, taking the new path and the new quotes whenever an entry and a
  style match it.
\<close>

fun hop :: "string \<times> string \<Rightarrow> char \<times> string \<times> char \<Rightarrow> style \<Rightarrow> char \<times> string \<times> char" where
  "hop (old, new) (q1, b, q2) (Q1, Q2, q) =
     (if b = old \<and> atom_ok Q1 q1 \<and> atom_ok Q2 q2 then (q, new, q) else (q1, b, q2))"

definition route ::
  "style list \<Rightarrow> (string \<times> string) list \<Rightarrow> char \<times> string \<times> char \<Rightarrow> char \<times> string \<times> char" where
  "route styles entries x = foldl (\<lambda>x e. foldl (hop e) x styles) x entries"

definition shown :: "char \<times> string \<times> char \<Rightarrow> string" where
  "shown x = (case x of (q1, b, q2) \<Rightarrow> from_str q1 b q2)"

definition import_like :: "char \<times> string \<times> char \<Rightarrow> bool" where
  "import_like x = (case x of (q1, b, q2) \<Rightarrow> is_quote q1 \<and> plain b \<and> is_quote q2)"

section \<open>Notions used in the analysis of the loops\<close>

text \<open>
  The common shape of \<^verbatim>\<open>fix_file\<close> and \<^verbatim>\<open>fix_imports_in_file\<close>: read, transform, write back
  when the text has changed, and turn every exception into a printed line and \<^verbatim>\<open>False\<close>.
\<close>

definition gen_fix :: "(string \<Rightarrow> string) \<Rightarrow> string \<Rightarrow> world \<Rightarrow> path \<Rightarrow> bool \<times> world" where
  "gen_fix f pre w p =
     (let w1 = w\<lparr>opened := opened w @ [(p, ''r'')]\<rparr>
      in case read_error (disk w p) of
           Some e \<Rightarrow> (False, print (pre @ p @ '': '' @ str_exc e) w1)
         | None \<Rightarrow>
             if f (text_of (disk w p)) = text_of (disk w p) then (False, w1)
             else (let w2 = w\<lparr>opened := opened w @ [(p, ''r''), (p, ''w'')]\<rparr>
                   in case write_error (disk w p) of
                        Some e \<Rightarrow> (False, print (pre @ p @ '': '' @ str_exc e) w2)
                      | None \<Rightarrow>
                          (True, w2\<lparr>disk := (disk w)
                                   (p := (disk w p)\<lparr>text_of := f (text_of (disk w p))\<rparr>)\<rparr>)))"

text \<open>
  The common shape of the two loop bodies once the path is known to lie below the root:
  skip, or run the per-file function and print a line when it returns \<^verbatim>\<open>True\<close>.
\<close>

definition gen_after ::
  "(path \<Rightarrow> bool) \<Rightarrow> (world \<Rightarrow> path \<Rightarrow> bool \<times> world) \<Rightarrow> (path \<Rightarrow> string) \<Rightarrow>
   nat \<times> world \<Rightarrow> path \<Rightarrow> nat \<times> world" where
  "gen_after skip fixer line st p =
     (case st of (fixed, w) \<Rightarrow>
        if skip p then (fixed, w)
        else (case fixer w p of
                (changed, w1) \<Rightarrow>
                  if changed then (fixed + 1, print (line p) w1) else (fixed, w1)))"

definition line_final :: "path \<Rightarrow> string" where
  "line_final p = check_mark @ '' '' @ drop (length ROOT + 1) p"

definition line_imports :: "path \<Rightarrow> string" where
  "line_imports p = check_mark @ '' Fixed: '' @ drop (length root + 1) p"

text \<open>
  What one visit prints: nothing (the file is skipped or unchanged), an error line (the
  exception is the inner value), or the line of a fixed file.
\<close>

definition outcome ::
  "(path \<Rightarrow> bool) \<Rightarrow> (string \<Rightarrow> string) \<Rightarrow> world \<Rightarrow> path \<Rightarrow> py_exception option option" where
  "outcome skip f w p =
     (if skip p then None
      else case read_error (disk w p) of
             Some e \<Rightarrow> Some (Some e)
           | None \<Rightarrow>
               if f (text_of (disk w p)) = text_of (disk w p) then None
               else (case write_error (disk w p) of Some e \<Rightarrow> Some (Some e) | None \<Rightarrow> Some None))"

section \<open>Properties of the substitution primitives\<close>

lemma str_in_sublist: "str_in old s = sublist old s"
  by (induction s) (auto simp: sublist_Cons_right)

lemma match_here_lits: "match_here (lits old) s = prefix old s"
  unfolding lits_def by (induction old arbitrary: s) (case_tac s; auto)+

lemma re_search_lits: "re_search (lits old) s = str_in old s"
  by (induction s) (auto simp: match_here_lits)

lemma length_lits: "length (lits old) = length old"
  by (simp add: lits_def)

lemma re_sub_hit:
  "match_here (a # as) (c # cs) \<Longrightarrow>
   re_sub (a # as) repl (c # cs) = repl @ re_sub (a # as) repl (drop (length as) cs)"
  by (simp only: re_sub.simps(3) if_True)

lemma re_sub_miss:
  "\<not> match_here (a # as) (c # cs) \<Longrightarrow>
   re_sub (a # as) repl (c # cs) = c # re_sub (a # as) repl cs"
  by (simp only: re_sub.simps(3) if_False)

lemma replace_hit:
  "prefix (a # old) (c # cs) \<Longrightarrow>
   replace (c # cs) (a # old) new = new @ replace (drop (length old) cs) (a # old) new"
  by (simp only: replace.simps(3) if_True)

lemma replace_miss:
  "\<not> prefix (a # old) (c # cs) \<Longrightarrow>
   replace (c # cs) (a # old) new = c # replace cs (a # old) new"
  by (simp only: replace.simps(3) if_False)

lemma replace_re_sub: "replace s old new = re_sub (lits old) new s"
proof (induction s old new rule: replace.induct)
  case (1 content new)
  then show ?case by (simp add: lits_def)
next
  case (2 a old new)
  then show ?case by (simp add: lits_def)
next
  case (3 c cs a old new)
  have m: "match_here (Lit a # map Lit old) (c # cs) = prefix (a # old) (c # cs)"
    using match_here_lits[of "a # old" "c # cs"] by (simp add: lits_def)
  show ?case
  proof (cases "prefix (a # old) (c # cs)")
    case True
    with m have "match_here (Lit a # map Lit old) (c # cs)" by blast
    from re_sub_hit[OF this] replace_hit[OF True] 3(1)[OF True]
    show ?thesis by (simp only: lits_def list.map length_map)
  next
    case False
    with m have "\<not> match_here (Lit a # map Lit old) (c # cs)" by blast
    from re_sub_miss[OF this] replace_miss[OF False] 3(2)[OF False]
    show ?thesis by (simp only: lits_def list.map)
  qed
qed

lemma match_here_append_agree: "match_here q (n @ r) \<Longrightarrow> agree q n"
  by (induction q n rule: agree.induct) auto

lemma match_here_prefix_agree: "match_here p s \<Longrightarrow> prefix x s \<Longrightarrow> agree p x"
proof (induction p x arbitrary: s rule: agree.induct)
  case (3 a as c cs)
  then obtain s' where "s = c # s'" by (cases s) auto
  with 3 show ?case by auto
qed simp_all

lemma match_here_re_sub:
  "pat_tails_free q n \<Longrightarrow> match_here q (re_sub p n s) \<Longrightarrow> p \<noteq> [] \<Longrightarrow> match_here q s"
proof (induction p n s arbitrary: q rule: re_sub.induct)
  case (1 repl s)
  then show ?case by simp
next
  case (2 a as repl)
  then show ?case by simp
next
  case (3 a as repl c cs)
  show ?case
  proof (cases q)
    case Nil
    then show ?thesis by simp
  next
    case (Cons b q')
    show ?thesis
    proof (cases "match_here (a # as) (c # cs)")
      case True
      from 3(4) have "match_here q (repl @ re_sub (a # as) repl (drop (length as) cs))"
        unfolding re_sub_hit[OF True] .
      then have "agree q repl" by (rule match_here_append_agree)
      with 3(3) Cons show ?thesis by simp
    next
      case False
      from 3(4) Cons have "match_here (b # q') (c # re_sub (a # as) repl cs)"
        unfolding re_sub_miss[OF False] by simp
      then have "atom_ok b c" and m: "match_here q' (re_sub (a # as) repl cs)" by simp_all
      from 3(3) Cons have "pat_tails_free q' repl" by simp
      from 3(2)[OF False this m] have "match_here q' cs" by simp
      with \<open>atom_ok b c\<close> Cons show ?thesis by simp
    qed
  qed
qed

lemma re_search_Nil_pat: "re_search [] s"
  by (cases s) auto

lemma re_search_append_left:
  "str_tails_free q n \<Longrightarrow> \<not> re_search q r \<Longrightarrow> \<not> re_search q (n @ r)"
  by (induction n) (auto dest: match_here_append_agree[of _ "_ # _", simplified])

lemma re_search_drop: "re_search q (drop k s) \<Longrightarrow> re_search q s"
proof (induction s arbitrary: k)
  case Nil then show ?case by simp
next
  case (Cons c cs)
  then show ?case by (cases k) auto
qed

lemma re_search_re_sub:
  "apart q n \<Longrightarrow> q = p \<or> \<not> re_search q s \<Longrightarrow> p \<noteq> [] \<Longrightarrow> q \<noteq> [] \<Longrightarrow> \<not> re_search q (re_sub p n s)"
proof (induction p n s rule: re_sub.induct)
  case (1 repl s)
  then show ?case by simp
next
  case (2 a as repl)
  then show ?case by (cases q) auto
next
  case (3 a as repl c cs)
  from 3(3) have ptf: "pat_tails_free q repl" and stf: "str_tails_free q repl"
    by (simp_all add: apart_def)
  show ?case
  proof (cases "match_here (a # as) (c # cs)")
    case True
    from 3(4) have "q = a # as \<or> \<not> re_search q (drop (length as) cs)"
      using re_search_drop[of q "Suc (length as)" "c # cs"] by auto
    from 3(1)[OF True 3(3) this 3(5) 3(6)]
    have "\<not> re_search q (re_sub (a # as) repl (drop (length as) cs))" .
    from re_search_append_left[OF stf this] show ?thesis unfolding re_sub_hit[OF True] .
  next
    case False
    from 3(4) have "q = a # as \<or> \<not> re_search q cs" by auto
    from 3(2)[OF False 3(3) this 3(5) 3(6)]
    have r: "\<not> re_search q (re_sub (a # as) repl cs)" .
    have "\<not> match_here q (re_sub (a # as) repl (c # cs))"
    proof
      assume "match_here q (re_sub (a # as) repl (c # cs))"
      from match_here_re_sub[OF ptf this] have "match_here q (c # cs)" by simp
      with 3(4) False show False by auto
    qed
    with r show ?thesis by (simp add: re_sub_miss[OF False] del: re_sub.simps)
  qed
qed

lemma re_sub_id: "\<not> re_search p s \<Longrightarrow> re_sub p n s = s"
  by (induction p n s rule: re_sub.induct) (auto simp: re_search_Nil_pat)

lemma str_in_Nil [simp]: "str_in [] s"
  by (cases s) auto

lemma str_in_append_right: "str_in x r \<Longrightarrow> str_in x (n @ r)"
  by (induction n) auto

lemma str_in_append_left: "str_in n (n @ r)"
  by (cases n) auto

lemma re_sub_produces:
  "re_search p s \<Longrightarrow> p \<noteq> [] \<Longrightarrow> str_in n (re_sub p n s)"
proof (induction p n s rule: re_sub.induct)
  case (1 repl s)
  then show ?case by simp
next
  case (2 a as repl)
  then show ?case by simp
next
  case (3 a as repl c cs)
  then show ?case by (auto simp: str_in_append_left)
qed

lemma prefix_re_sub:
  "str_tails_free p x \<Longrightarrow> prefix x s \<Longrightarrow> p \<noteq> [] \<Longrightarrow> prefix x (re_sub p n s)"
proof (induction p n s arbitrary: x rule: re_sub.induct)
  case (1 repl s)
  then show ?case by simp
next
  case (2 a as repl)
  then show ?case by simp
next
  case (3 a as repl c cs)
  show ?case
  proof (cases x)
    case Nil
    then show ?thesis by simp
  next
    case (Cons d x')
    with 3(4) have d: "d = c" and px: "prefix x' cs" by simp_all
    from 3(3) Cons have na: "\<not> agree (a # as) x" and tf: "str_tails_free (a # as) x'" by simp_all
    from na match_here_prefix_agree[OF _ 3(4)] have nm: "\<not> match_here (a # as) (c # cs)" by blast
    from 3(2)[OF nm tf px] have "prefix x' (re_sub (a # as) repl cs)" by simp
    with d Cons show ?thesis by (simp add: re_sub_miss[OF nm] del: re_sub.simps)
  qed
qed

lemma str_in_after_match:
  "pat_tails_free p x \<Longrightarrow> match_here p s \<Longrightarrow> str_in x s \<Longrightarrow> x \<noteq> [] \<Longrightarrow> str_in x (drop (length p) s)"
proof (induction p arbitrary: s)
  case Nil
  then show ?case by simp
next
  case (Cons a p)
  then obtain c cs where s: "s = c # cs" by (cases s) auto
  from Cons(2) have na: "\<not> agree (a # p) x" and tf: "pat_tails_free p x" by simp_all
  from na match_here_prefix_agree[OF Cons(3)] have "\<not> prefix x s" by blast
  with Cons(4) s have "str_in x cs" by simp
  moreover from Cons(3) s have "match_here p cs" by simp
  ultimately have "str_in x (drop (length p) cs)" using Cons(1)[OF tf] Cons(5) by blast
  with s show ?case by simp
qed

lemma str_in_re_sub:
  "apart p x \<Longrightarrow> str_in x s \<Longrightarrow> p \<noteq> [] \<Longrightarrow> str_in x (re_sub p n s)"
proof (induction p n s rule: re_sub.induct)
  case (1 repl s)
  then show ?case by simp
next
  case (2 a as repl)
  then show ?case by simp
next
  case (3 a as repl c cs)
  from 3(3) have ptf: "pat_tails_free (a # as) x" and stf: "str_tails_free (a # as) x"
    by (simp_all add: apart_def)
  show ?case
  proof (cases "x = []")
    case True
    then show ?thesis by simp
  next
    case xne: False
    show ?thesis
    proof (cases "match_here (a # as) (c # cs)")
      case True
      from str_in_after_match[OF ptf True 3(4) xne]
      have "str_in x (drop (length as) cs)" by simp
      from 3(1)[OF True 3(3) this] have "str_in x (re_sub (a # as) repl (drop (length as) cs))" by simp
      then show ?thesis by (simp add: re_sub_hit[OF True] str_in_append_right del: re_sub.simps)
    next
      case False
      show ?thesis
      proof (cases "prefix x (c # cs)")
        case True
        from prefix_re_sub[OF stf True, of repl] obtain r where "re_sub (a # as) repl (c # cs) = x @ r"
          by (auto simp: prefix_def)
        then show ?thesis by (simp add: str_in_append_left del: re_sub.simps)
      next
        case np: False
        with 3(4) have "str_in x cs" by simp
        from 3(2)[OF False 3(3) this] have "str_in x (re_sub (a # as) repl cs)" by simp
        then show ?thesis by (simp add: re_sub_miss[OF False] del: re_sub.simps)
      qed
    qed
  qed
qed

section \<open>Imports never overlap\<close>

text \<open>
  A pattern of the shape \<open>from_pat\<close> and a string of the shape \<open>from_str\<close> over plain paths
  are apart unless the pattern matches the string in full: a tail of one can never run into
  the head of the other, because the only blank sits at the fifth position and the only
  quotes at the sixth and the last.
\<close>

lemma quote_atom_ok: "quote_atom Q \<Longrightarrow> atom_ok Q c \<Longrightarrow> is_quote c"
  by (cases Q) (auto simp: list_all_iff)

lemma plain_Cons [simp]: "plain (c # b) = (c \<noteq> CHR '' '' \<and> \<not> is_quote c \<and> plain b)"
  by (simp add: plain_def)

lemma plain_Nil [simp]: "plain []"
  by (simp add: plain_def)

lemma lits_Nil [simp]: "lits [] = []"
  by (simp add: lits_def)

lemma lits_Cons [simp]: "lits (c # cs) = Lit c # lits cs"
  by (simp add: lits_def)

lemma lits_append: "lits (xs @ ys) = lits xs @ lits ys"
  by (simp add: lits_def)

lemma tail_vs_head:
  "plain b \<Longrightarrow> quote_atom Q \<Longrightarrow> list_all (\<lambda>c. \<not> is_quote c) w \<Longrightarrow>
   \<not> agree (lits b @ [Q]) (w @ CHR '' '' # r)"
proof (induction b arbitrary: w)
  case Nil
  then show ?case by (cases w) (auto dest: quote_atom_ok simp: is_quote_def)
next
  case (Cons c b)
  then show ?case by (cases w) auto
qed

lemma head_vs_tail:
  "plain b \<Longrightarrow> is_quote q \<Longrightarrow> list_all (\<lambda>c. \<not> is_quote c) w \<Longrightarrow>
   \<not> agree (lits w @ Lit (CHR '' '') # P) (b @ [q])"
proof (induction w arbitrary: b)
  case Nil
  then show ?case by (cases b) (auto simp: is_quote_def)
next
  case (Cons c w)
  then show ?case by (cases b) auto
qed

lemma body_agree:
  "plain b1 \<Longrightarrow> plain b2 \<Longrightarrow> quote_atom Q \<Longrightarrow> is_quote q \<Longrightarrow>
   agree (lits b1 @ [Q]) (b2 @ [q]) \<Longrightarrow> b1 = b2 \<and> atom_ok Q q"
proof (induction b1 arbitrary: b2)
  case Nil
  then show ?case by (cases b2) (auto dest: quote_atom_ok)
next
  case (Cons c b1)
  then show ?case by (cases b2) auto
qed

lemma pat_tails_free_body:
  "plain b \<Longrightarrow> quote_atom Q \<Longrightarrow> pat_tails_free (lits b @ [Q]) (from_str q1 b2 q2)"
proof (induction b)
  case Nil
  then show ?case by (auto simp: from_str_def dest: quote_atom_ok simp: is_quote_def)
next
  case (Cons c b)
  have "\<not> agree (lits (c # b) @ [Q]) (''from'' @ CHR '' '' # q1 # b2 @ [q2])"
    by (rule tail_vs_head[OF Cons(2,3)]) (simp add: is_quote_def)
  with Cons show ?case by (simp add: from_str_def)
qed

lemma str_tails_free_body:
  "plain b \<Longrightarrow> is_quote q \<Longrightarrow> str_tails_free (from_pat Q1 b1 Q2) (b @ [q])"
proof (induction b)
  case Nil
  then show ?case by (auto simp: from_pat_def is_quote_def)
next
  case (Cons c b)
  have "\<not> agree (lits ''from'' @ Lit (CHR '' '') # Q1 # lits b1 @ [Q2]) ((c # b) @ [q])"
    by (rule head_vs_tail[OF Cons(2,3)]) (simp add: is_quote_def)
  with Cons show ?case by (simp add: from_pat_def)
qed

lemma apart_from:
  assumes "plain b1" "plain b2" "quote_atom Q1" "quote_atom Q2" "is_quote q1" "is_quote q2"
    and diff: "b1 \<noteq> b2 \<or> \<not> atom_ok Q1 q1 \<or> \<not> atom_ok Q2 q2"
  shows "apart (from_pat Q1 b1 Q2) (from_str q1 b2 q2)"
proof -
  have whole: "\<not> agree (from_pat Q1 b1 Q2) (from_str q1 b2 q2)"
    using body_agree[OF assms(1,2,4,6)] diff by (auto simp: from_pat_def from_str_def)
  have nq: "\<not> atom_ok Q1 (CHR ''f'')"
    using quote_atom_ok[OF assms(3)] by (auto simp: is_quote_def)
  have "pat_tails_free (from_pat Q1 b1 Q2) (from_str q1 b2 q2)"
    using whole nq pat_tails_free_body[OF assms(1,4), of q1 b2 q2]
    by (simp add: from_pat_def from_str_def)
  moreover have "str_tails_free (from_pat Q1 b1 Q2) (from_str q1 b2 q2)"
    using whole assms(5) str_tails_free_body[OF assms(2,6), of Q1 b1 Q2]
    by (auto simp: from_pat_def from_str_def is_quote_def)
  ultimately show ?thesis by (simp add: apart_def)
qed

section \<open>A sweep leaves none of its patterns behind\<close>

lemma from_pat_nonempty [simp]: "from_pat Q1 b Q2 \<noteq> []"
  by (simp add: from_pat_def)

lemma step_keeps_absent:
  assumes "style_ok st" "quote_atom A1" "quote_atom A2" "plain b" "plain new" "b \<noteq> new"
    and "\<not> re_search (from_pat A1 b A2) c"
  shows "\<not> re_search (from_pat A1 b A2) (step (old, new) c st)"
proof -
  obtain Q1 Q2 q where st: "st = (Q1, Q2, q)" by (cases st) auto
  with assms(1) have q: "is_quote q" by (simp add: style_ok_def)
  have "apart (from_pat A1 b A2) (from_str q new q)"
    using apart_from[OF assms(4,5,2,3) q q] assms(6) by blast
  from re_search_re_sub[OF this, of "from_pat Q1 old Q2" c] assms(7)
  show ?thesis by (simp add: step_def st)
qed

lemma step_removes:
  assumes "style_ok (Q1, Q2, q)" "plain old" "plain new" "old \<noteq> new"
  shows "\<not> re_search (from_pat Q1 old Q2) (step (old, new) c (Q1, Q2, q))"
proof -
  from assms(1) have q: "is_quote q" "quote_atom Q1" "quote_atom Q2" by (simp_all add: style_ok_def)
  have "apart (from_pat Q1 old Q2) (from_str q new q)"
    using apart_from[OF assms(2,3) q(2,3) q(1) q(1)] assms(4) by blast
  from re_search_re_sub[OF this, of "from_pat Q1 old Q2" c]
  show ?thesis by (simp add: step_def)
qed

lemma entry_keeps_absent:
  assumes "list_all style_ok styles" "quote_atom A1" "quote_atom A2" "plain b" "plain new" "b \<noteq> new"
  shows "\<not> re_search (from_pat A1 b A2) c \<Longrightarrow>
         \<not> re_search (from_pat A1 b A2) (entry_step styles c (old, new))"
  using assms(1)
proof (induction styles arbitrary: c)
  case Nil
  then show ?case by (simp add: entry_step_def)
next
  case (Cons st styles)
  from Cons(3) have ok: "style_ok st" and oks: "list_all style_ok styles" by simp_all
  from step_keeps_absent[OF ok assms(2,3,4,5,6) Cons(2)]
  have "\<not> re_search (from_pat A1 b A2) (step (old, new) c st)" .
  from Cons(1)[OF this oks] show ?case by (simp add: entry_step_def)
qed

lemma entry_removes:
  assumes "plain old" "plain new" "old \<noteq> new"
  shows "list_all style_ok styles \<Longrightarrow> absent styles old (entry_step styles c (old, new))"
proof (induction styles arbitrary: c rule: rev_induct)
  case Nil
  then show ?case by (simp add: absent_def)
next
  case (snoc st styles)
  obtain Q1 Q2 q where st: "st = (Q1, Q2, q)" by (cases st) auto
  from snoc(2) have ok: "style_ok st" and oks: "list_all style_ok styles" by simp_all
  let ?c = "entry_step styles c (old, new)"
  have e: "entry_step (styles @ [st]) c (old, new) = step (old, new) ?c st"
    by (simp add: entry_step_def)
  from snoc(1)[OF oks] have prev: "absent styles old ?c" .
  have "absent styles old (step (old, new) ?c st)"
    unfolding absent_def list_all_iff
  proof
    fix s assume s: "s \<in> set styles"
    with oks have "style_ok s" by (simp add: list_all_iff)
    then have qa: "quote_atom (fst s)" "quote_atom (fst (snd s))"
      by (auto simp: style_ok_def split: prod.splits)
    from prev s have "\<not> re_search (from_pat (fst s) old (fst (snd s))) ?c"
      by (simp add: absent_def list_all_iff)
    from step_keeps_absent[OF ok qa assms(1,2,3) this]
    show "\<not> re_search (from_pat (fst s) old (fst (snd s))) (step (old, new) ?c st)" .
  qed
  moreover have "\<not> re_search (from_pat Q1 old Q2) (step (old, new) ?c st)"
    using step_removes[OF _ assms] ok st by blast
  ultimately show ?case unfolding e by (simp add: absent_def st)
qed

lemma entry_keeps_absent_all:
  assumes "list_all style_ok styles" "plain b" "plain new" "b \<noteq> new" "absent styles b c"
  shows "absent styles b (entry_step styles c (old, new))"
  unfolding absent_def list_all_iff
proof
  fix s assume s: "s \<in> set styles"
  with assms(1) have "style_ok s" by (simp add: list_all_iff)
  then have qa: "quote_atom (fst s)" "quote_atom (fst (snd s))"
    by (auto simp: style_ok_def split: prod.splits)
  from assms(5) s have "\<not> re_search (from_pat (fst s) b (fst (snd s))) c"
    by (simp add: absent_def list_all_iff)
  from entry_keeps_absent[OF assms(1) qa assms(2,3,4) this]
  show "\<not> re_search (from_pat (fst s) b (fst (snd s))) (entry_step styles c (old, new))" .
qed

lemma sweep_absent:
  assumes "list_all style_ok styles"
  shows "entries_ok seen entries \<Longrightarrow> list_all plain seen \<Longrightarrow>
         list_all (\<lambda>b. absent styles b c) seen \<Longrightarrow>
         list_all (\<lambda>b. absent styles b (sweep styles entries c)) (rev (map fst entries) @ seen)"
proof (induction entries arbitrary: seen c)
  case Nil
  then show ?case by (simp add: sweep_def)
next
  case (Cons e entries)
  obtain old new where e: "e = (old, new)" by (cases e) auto
  from Cons(2) e have p: "plain old" "plain new" and ne: "old \<noteq> new" and fresh: "new \<notin> set seen"
    and ok: "entries_ok (old # seen) entries" by auto
  let ?c = "entry_step styles c (old, new)"
  have 1: "absent styles old ?c" by (rule entry_removes[OF p ne assms])
  have 2: "list_all (\<lambda>b. absent styles b ?c) seen"
    unfolding list_all_iff
  proof
    fix b assume b: "b \<in> set seen"
    with Cons(3,4) have "plain b" "absent styles b c" by (simp_all add: list_all_iff)
    moreover from b fresh have "b \<noteq> new" by auto
    ultimately show "absent styles b ?c"
      using entry_keeps_absent_all[OF assms _ p(2)] by blast
  qed
  from Cons(1)[OF ok, of ?c] p(1) Cons(3) 1 2
  have "list_all (\<lambda>b. absent styles b (sweep styles entries ?c)) (rev (map fst entries) @ old # seen)"
    by simp
  then show ?case by (simp add: sweep_def e)
qed

lemma entry_step_id: "absent styles old c \<Longrightarrow> entry_step styles c (old, new) = c"
proof (induction styles)
  case Nil
  then show ?case by (simp add: entry_step_def)
next
  case (Cons st styles)
  then show ?case
    by (cases st) (simp add: entry_step_def absent_def step_def re_sub_id)
qed

lemma sweep_id: "list_all (\<lambda>b. absent styles b c) (map fst entries) \<Longrightarrow> sweep styles entries c = c"
proof (induction entries)
  case Nil
  then show ?case by (simp add: sweep_def)
next
  case (Cons e entries)
  then show ?case by (cases e) (simp add: sweep_def entry_step_id)
qed

lemma sweep_clean:
  assumes "list_all style_ok styles" "entries_ok [] entries"
  shows "list_all (\<lambda>b. absent styles b (sweep styles entries c)) (map fst entries)"
proof -
  from sweep_absent[OF assms(1,2), of c]
  have "list_all (\<lambda>b. absent styles b (sweep styles entries c)) (rev (map fst entries))" by simp
  then show ?thesis by (simp add: list_all_iff)
qed

lemma sweep_idem:
  assumes "list_all style_ok styles" "entries_ok [] entries"
  shows "sweep styles entries (sweep styles entries c) = sweep styles entries c"
  by (rule sweep_id[OF sweep_clean[OF assms]])

section \<open>Where a sweep takes an import\<close>

lemma match_here_from:
  "atom_ok Q1 q1 \<Longrightarrow> atom_ok Q2 q2 \<Longrightarrow> match_here (from_pat Q1 b Q2) (from_str q1 b q2 @ r)"
proof -
  assume a: "atom_ok Q1 q1" "atom_ok Q2 q2"
  have "match_here (lits b @ [Q2]) (b @ q2 # r)"
    using a(2) by (induction b) auto
  with a(1) show ?thesis by (simp add: from_pat_def from_str_def)
qed

lemma str_in_re_search:
  "(\<And>r. match_here p (x @ r)) \<Longrightarrow> str_in x c \<Longrightarrow> re_search p c"
proof (induction c)
  case Nil
  then have "x = []" by simp
  with Nil(1)[of "[]"] show ?case by simp
next
  case (Cons a c)
  show ?case
  proof (cases "prefix x (a # c)")
    case True
    then obtain r where "a # c = x @ r" by (auto simp: prefix_def)
    with Cons(2)[of r] have "match_here p (a # c)" by metis
    then show ?thesis by simp
  next
    case False
    with Cons show ?thesis by simp
  qed
qed

lemma step_routes:
  assumes "style_ok st" "import_like x" "plain old" "plain new" "str_in (shown x) c"
  shows "str_in (shown (hop (old, new) x st)) (step (old, new) c st) \<and>
         import_like (hop (old, new) x st)"
proof -
  obtain Q1 Q2 q where st: "st = (Q1, Q2, q)" by (cases st) auto
  obtain q1 b q2 where x: "x = (q1, b, q2)" by (cases x) auto
  from assms(1) st have so: "quote_atom Q1" "quote_atom Q2" "is_quote q" by (simp_all add: style_ok_def)
  from assms(2) x have xo: "is_quote q1" "plain b" "is_quote q2" by (simp_all add: import_like_def)
  show ?thesis
  proof (cases "b = old \<and> atom_ok Q1 q1 \<and> atom_ok Q2 q2")
    case True
    then have "\<And>r. match_here (from_pat Q1 old Q2) (shown x @ r)"
      by (simp add: shown_def x match_here_from)
    from str_in_re_search[OF this assms(5)] have "re_search (from_pat Q1 old Q2) c" .
    from re_sub_produces[OF this] have "str_in (from_str q new q) (step (old, new) c st)"
      by (simp add: step_def st)
    with True so assms(4) show ?thesis by (simp add: st x shown_def import_like_def)
  next
    case False
    then have "old \<noteq> b \<or> \<not> atom_ok Q1 q1 \<or> \<not> atom_ok Q2 q2" by blast
    from apart_from[OF assms(3) xo(2) so(1,2) xo(1,3) this]
    have "apart (from_pat Q1 old Q2) (shown x)" by (simp add: shown_def x)
    from str_in_re_sub[OF this assms(5)] have "str_in (shown x) (step (old, new) c st)"
      by (simp add: step_def st)
    with False assms(2) show ?thesis by (auto simp: st x)
  qed
qed

lemma entry_routes:
  assumes "plain old" "plain new"
  shows "list_all style_ok styles \<Longrightarrow> import_like x \<Longrightarrow> str_in (shown x) c \<Longrightarrow>
         str_in (shown (foldl (hop (old, new)) x styles)) (entry_step styles c (old, new)) \<and>
         import_like (foldl (hop (old, new)) x styles)"
proof (induction styles arbitrary: x c)
  case Nil
  then show ?case by (simp add: entry_step_def)
next
  case (Cons st styles)
  from Cons(2) have ok: "style_ok st" and oks: "list_all style_ok styles" by simp_all
  from step_routes[OF ok Cons(3) assms Cons(4)]
  have 1: "str_in (shown (hop (old, new) x st)) (step (old, new) c st)"
    and 2: "import_like (hop (old, new) x st)" by simp_all
  from Cons(1)[OF oks 2 1] show ?case by (simp add: entry_step_def)
qed

lemma sweep_routes:
  assumes "list_all style_ok styles"
  shows "list_all (\<lambda>e. plain (fst e) \<and> plain (snd e)) entries \<Longrightarrow> import_like x \<Longrightarrow>
         str_in (shown x) c \<Longrightarrow>
         str_in (shown (route styles entries x)) (sweep styles entries c)"
proof (induction entries arbitrary: x c)
  case Nil
  then show ?case by (simp add: route_def sweep_def)
next
  case (Cons e entries)
  obtain old new where e: "e = (old, new)" by (cases e) auto
  from Cons(2) e have p: "plain old" "plain new"
    and ps: "list_all (\<lambda>e. plain (fst e) \<and> plain (snd e)) entries" by simp_all
  from entry_routes[OF p assms Cons(3,4)]
  have 1: "str_in (shown (foldl (hop (old, new)) x styles)) (entry_step styles c (old, new))"
    and 2: "import_like (foldl (hop (old, new)) x styles)" by simp_all
  from Cons(1)[OF ps 2 1] show ?case by (simp add: route_def sweep_def e)
qed

lemma entries_ok_plain:
  "entries_ok seen entries \<Longrightarrow> list_all (\<lambda>e. plain (fst e) \<and> plain (snd e)) entries"
  by (induction seen entries rule: entries_ok.induct) auto

section \<open>The two substitution passes are sweeps\<close>

lemma from_lit_from_str: "from_lit q b = from_str q b q"
  by (simp add: from_lit_def from_str_def)

lemma lits_from_lit: "lits (from_lit q b) = from_pat (Lit q) b (Lit q)"
  by (simp add: from_lit_def from_pat_def lits_append)

lemma guarded_replace: "(if str_in old c then replace c old new else c) = re_sub (lits old) new c"
  by (simp add: replace_re_sub re_sub_id re_search_lits)

lemma fst_apply_pattern:
  "fst (apply_pattern (c, f) (from_lit q old, from_lit q new)) = step (old, new) c (Lit q, Lit q, q)"
proof -
  have "fst (apply_pattern (c, f) (from_lit q old, from_lit q new)) =
        (if str_in (from_lit q old) c then replace c (from_lit q old) (from_lit q new) else c)"
    by (simp add: apply_pattern_def)
  also have "\<dots> = re_sub (lits (from_lit q old)) (from_lit q new) c"
    by (rule guarded_replace)
  finally show ?thesis
    by (simp add: step_def lits_from_lit from_lit_from_str[symmetric])
qed

lemma fst_apply_entry: "fst (apply_entry (c, f) e) = entry_step styles_imports c e"
proof -
  obtain old new where e: "e = (old, new)" by (cases e) auto
  obtain c1 f1 where 1: "apply_pattern (c, f) (from_lit sq old, from_lit sq new) = (c1, f1)"
    by (cases "apply_pattern (c, f) (from_lit sq old, from_lit sq new)") auto
  from fst_apply_pattern[of c f sq old new] 1 have c1: "c1 = step (old, new) c (Lit sq, Lit sq, sq)"
    by simp
  from fst_apply_pattern[of c1 f1 dq old new] 1 c1 show ?thesis
    by (simp add: apply_entry_def e patterns_def entry_step_def styles_imports_def)
qed

lemma fst_foldl_apply_entry:
  "fst (foldl apply_entry (c, f) entries) = sweep styles_imports entries c"
proof (induction entries arbitrary: c f)
  case Nil
  then show ?case by (simp add: sweep_def)
next
  case (Cons e entries)
  obtain c1 f1 where 1: "apply_entry (c, f) e = (c1, f1)" by (cases "apply_entry (c, f) e") auto
  with fst_apply_entry[of c f e] have "c1 = entry_step styles_imports c e" by simp
  with Cons[of c1 f1] 1 show ?case by (simp add: sweep_def)
qed

lemma rewrite_imports_sweep: "fst (rewrite_imports c) = sweep styles_imports IMPORT_MAP c"
  by (simp add: rewrite_imports_def fst_foldl_apply_entry)

lemma FIXES_paths: "FIXES = map (\<lambda>(old, new). (from_re old, from_lit sq new)) FIX_PATHS"
  by (simp add: FIXES_def FIX_PATHS_def)

lemma from_re_from_pat: "from_re b = from_pat (OneOf [sq, dq]) b (OneOf [sq, dq])"
  by (simp add: from_re_def from_pat_def)

lemma apply_fix_step:
  "apply_fix c (from_re old, from_lit sq new) = entry_step styles_final c (old, new)"
  by (simp add: apply_fix_def entry_step_def styles_final_def step_def from_re_from_pat from_lit_from_str)

lemma foldl_apply_fix:
  "foldl apply_fix c (map (\<lambda>(old, new). (from_re old, from_lit sq new)) entries) =
   sweep styles_final entries c"
proof (induction entries arbitrary: c)
  case Nil
  then show ?case by (simp add: sweep_def)
next
  case (Cons e entries)
  then show ?case by (cases e) (simp add: sweep_def apply_fix_step)
qed

lemma apply_fixes_sweep: "apply_fixes c = sweep styles_final FIX_PATHS c"
  by (simp add: apply_fixes_def FIXES_paths foldl_apply_fix)

lemma styles_imports_ok: "list_all style_ok styles_imports"
  by (simp add: styles_imports_def style_ok_def is_quote_def)

lemma styles_final_ok: "list_all style_ok styles_final"
  by (simp add: styles_final_def style_ok_def is_quote_def)

lemma IMPORT_MAP_ok: "entries_ok [] IMPORT_MAP"
  by code_simp

lemma FIX_PATHS_ok: "entries_ok [] FIX_PATHS"
  by code_simp

lemma rewrite_imports_idem: "fst (rewrite_imports (fst (rewrite_imports c))) = fst (rewrite_imports c)"
  by (simp add: rewrite_imports_sweep sweep_idem[OF styles_imports_ok IMPORT_MAP_ok])

lemma apply_fixes_idem: "apply_fixes (apply_fixes c) = apply_fixes c"
  by (simp add: apply_fixes_sweep sweep_idem[OF styles_final_ok FIX_PATHS_ok])

lemma absent_imports:
  "absent styles_imports b c = (\<not> str_in (from_lit sq b) c \<and> \<not> str_in (from_lit dq b) c)"
  by (simp add: absent_def styles_imports_def lits_from_lit[symmetric] re_search_lits)

lemma absent_final: "absent styles_final b c = (\<not> re_search (from_re b) c)"
  by (simp add: absent_def styles_final_def from_re_from_pat)

section \<open>The flag \<^verbatim>\<open>changes_made\<close>\<close>

text \<open>
  The flag is set exactly when some pattern of the table occurs in the content read, and
  that is exactly when the pass changes the content.
\<close>

lemma snd_apply_pattern_True: "snd (apply_pattern (c, True) pn) = True"
  by (cases pn) (simp add: apply_pattern_def)

lemma snd_apply_entry_True: "snd (apply_entry (c, True) e) = True"
proof -
  obtain old new where e: "e = (old, new)" by (cases e) auto
  obtain c1 f1 where 1: "apply_pattern (c, True) (from_lit sq old, from_lit sq new) = (c1, f1)"
    by (cases "apply_pattern (c, True) (from_lit sq old, from_lit sq new)") auto
  with snd_apply_pattern_True[of c "(from_lit sq old, from_lit sq new)"] have "f1 = True" by simp
  with 1 snd_apply_pattern_True[of c1 "(from_lit dq old, from_lit dq new)"] show ?thesis
    by (simp add: apply_entry_def e patterns_def)
qed

lemma snd_foldl_apply_entry_True: "snd (foldl apply_entry (c, True) es) = True"
proof (induction es arbitrary: c)
  case Nil
  then show ?case by simp
next
  case (Cons e es)
  obtain c1 f1 where 1: "apply_entry (c, True) e = (c1, f1)" by (cases "apply_entry (c, True) e") auto
  with snd_apply_entry_True[of c e] have "f1 = True" by simp
  with 1 Cons[of c1] show ?case by simp
qed

lemma apply_entry_noop:
  "\<not> str_in (from_lit sq old) c \<Longrightarrow> \<not> str_in (from_lit dq old) c \<Longrightarrow>
   apply_entry (c, f) (old, new) = (c, f)"
  by (simp add: apply_entry_def patterns_def apply_pattern_def)

lemma apply_entry_flag:
  "str_in (from_lit sq old) c \<or> str_in (from_lit dq old) c \<Longrightarrow>
   snd (apply_entry (c, f) (old, new)) = True"
proof (cases "str_in (from_lit sq old) c")
  case True
  then have "apply_pattern (c, f) (from_lit sq old, from_lit sq new) =
             (replace c (from_lit sq old) (from_lit sq new), True)"
    by (simp add: apply_pattern_def)
  with snd_apply_pattern_True[of "replace c (from_lit sq old) (from_lit sq new)" "(from_lit dq old, from_lit dq new)"]
  show ?thesis by (simp add: apply_entry_def patterns_def)
next
  case False
  assume "str_in (from_lit sq old) c \<or> str_in (from_lit dq old) c"
  with False have "str_in (from_lit dq old) c" by simp
  with False show ?thesis by (simp add: apply_entry_def patterns_def apply_pattern_def)
qed

lemma snd_foldl_apply_entry:
  "snd (foldl apply_entry (c, f) es) = (f \<or> list_ex (occurs c) es)"
proof (induction es arbitrary: c f)
  case Nil
  then show ?case by simp
next
  case (Cons e es)
  obtain old new where e: "e = (old, new)" by (cases e) auto
  show ?case
  proof (cases "occurs c e")
    case True
    obtain c1 f1 where 1: "apply_entry (c, f) e = (c1, f1)" by (cases "apply_entry (c, f) e") auto
    from True apply_entry_flag[of old c f new] 1 e have "f1 = True" by (simp add: occurs_def)
    with 1 True snd_foldl_apply_entry_True[of c1 es] show ?thesis by simp
  next
    case False
    with e have "apply_entry (c, f) e = (c, f)" by (simp add: occurs_def apply_entry_noop)
    with False Cons[of c f] show ?thesis by simp
  qed
qed

lemma rewrite_imports_clean: "\<not> list_ex (occurs (fst (rewrite_imports c))) IMPORT_MAP"
proof -
  from sweep_clean[OF styles_imports_ok IMPORT_MAP_ok, of c]
  have "list_all (\<lambda>b. absent styles_imports b (fst (rewrite_imports c))) (map fst IMPORT_MAP)"
    by (simp add: rewrite_imports_sweep)
  then show ?thesis
    by (auto simp: list_all_iff list_ex_iff occurs_def absent_imports)
qed

lemma rewrite_imports_untouched:
  "\<not> list_ex (occurs c) IMPORT_MAP \<Longrightarrow> rewrite_imports c = (c, False)"
proof -
  assume a: "\<not> list_ex (occurs c) IMPORT_MAP"
  then have "list_all (\<lambda>b. absent styles_imports b c) (map fst IMPORT_MAP)"
    by (auto simp: list_all_iff list_ex_iff occurs_def absent_imports)
  from sweep_id[OF this] have "fst (rewrite_imports c) = c" by (simp add: rewrite_imports_sweep)
  moreover from a have "snd (rewrite_imports c) = False"
    by (simp add: rewrite_imports_def snd_foldl_apply_entry)
  ultimately show ?thesis by (cases "rewrite_imports c") simp
qed

lemma changes_made_iff: "snd (rewrite_imports c) = (fst (rewrite_imports c) \<noteq> c)"
proof (cases "list_ex (occurs c) IMPORT_MAP")
  case True
  then have "snd (rewrite_imports c)" by (simp add: rewrite_imports_def snd_foldl_apply_entry)
  moreover from True rewrite_imports_clean[of c] have "fst (rewrite_imports c) \<noteq> c" by auto
  ultimately show ?thesis by simp
next
  case False
  from rewrite_imports_untouched[OF this] show ?thesis by simp
qed

lemma apply_fixes_clean: "list_all (\<lambda>(pattern, replacement). \<not> re_search pattern (apply_fixes c)) FIXES"
proof -
  from sweep_clean[OF styles_final_ok FIX_PATHS_ok, of c]
  have "list_all (\<lambda>b. \<not> re_search (from_re b) (apply_fixes c)) (map fst FIX_PATHS)"
    by (simp add: apply_fixes_sweep absent_final)
  then show ?thesis by (simp add: FIXES_paths list_all_iff split_beta)
qed

lemma apply_fixes_untouched:
  "list_all (\<lambda>(pattern, replacement). \<not> re_search pattern c) FIXES \<Longrightarrow> apply_fixes c = c"
proof -
  assume "list_all (\<lambda>(pattern, replacement). \<not> re_search pattern c) FIXES"
  then have "list_all (\<lambda>b. absent styles_final b c) (map fst FIX_PATHS)"
    by (simp add: FIXES_paths list_all_iff split_beta absent_final)
  from sweep_id[OF this] show ?thesis by (simp add: apply_fixes_sweep)
qed

section \<open>What becomes of one import\<close>

lemma imports_plain: "list_all (\<lambda>e. plain (fst e) \<and> plain (snd e)) IMPORT_MAP"
  by (rule entries_ok_plain[OF IMPORT_MAP_ok])

lemma fixes_plain: "list_all (\<lambda>e. plain (fst e) \<and> plain (snd e)) FIX_PATHS"
  by (rule entries_ok_plain[OF FIX_PATHS_ok])

lemma list_all_take: "list_all P xs \<Longrightarrow> list_all P (take n xs)"
  by (auto simp: list_all_iff dest: in_set_takeD)

lemma imports_route:
  assumes "is_quote q" "plain b" "str_in (from_lit q b) c"
  shows "str_in (shown (route styles_imports (take n IMPORT_MAP) (q, b, q)))
           (fst (foldl apply_entry (c, f) (take n IMPORT_MAP)))"
proof -
  have "import_like (q, b, q)" using assms by (simp add: import_like_def)
  moreover have "str_in (shown (q, b, q)) c" using assms(3) by (simp add: shown_def from_lit_from_str)
  ultimately show ?thesis
    using sweep_routes[OF styles_imports_ok list_all_take[OF imports_plain, of n]]
    by (simp add: fst_foldl_apply_entry)
qed

lemma final_route:
  assumes "is_quote q1" "is_quote q2" "plain b" "str_in (from_str q1 b q2) c"
  shows "str_in (shown (route styles_final FIX_PATHS (q1, b, q2))) (apply_fixes c)"
proof -
  have "import_like (q1, b, q2)" using assms by (simp add: import_like_def)
  moreover have "str_in (shown (q1, b, q2)) c" using assms(4) by (simp add: shown_def)
  ultimately show ?thesis
    using sweep_routes[OF styles_final_ok fixes_plain] by (simp add: apply_fixes_sweep)
qed

lemma imports_routes: "list_all (\<lambda>(old, new). old = ''./user-history-utils'' \<or>
         (route styles_imports IMPORT_MAP (sq, old, sq) = (sq, new, sq) \<and>
          route styles_imports IMPORT_MAP (dq, old, dq) = (dq, new, dq))) IMPORT_MAP"
  by code_simp

lemma final_routes: "list_all (\<lambda>(old, new). list_all (\<lambda>(q1, q2). route styles_final FIX_PATHS (q1, old, q2) = (sq, new, sq)) [(sq, sq), (sq, dq), (dq, sq), (dq, dq)]) FIX_PATHS"
  by code_simp

lemma imports_rewritten:
  assumes "(old_path, new_path) \<in> set IMPORT_MAP" "old_path \<noteq> ''./user-history-utils''"
    and "q = sq \<or> q = dq" "str_in (from_lit q old_path) content"
  shows "str_in (from_lit q new_path) (fst (rewrite_imports content))"
proof -
  from imports_plain assms(1) have p: "plain old_path" by (auto simp: list_all_iff)
  from assms(3) have q: "is_quote q" by (simp add: is_quote_def)
  from imports_routes assms(1,2,3)
  have "route styles_imports IMPORT_MAP (q, old_path, q) = (q, new_path, q)"
    by (auto simp: list_all_iff)
  with imports_route[OF q p assms(4), of "length IMPORT_MAP" False]
  show ?thesis by (simp add: shown_def rewrite_imports_def from_lit_from_str)
qed

lemma match_here_lits_append:
  "match_here (lits w @ P) x \<Longrightarrow> \<exists>y. x = w @ y \<and> match_here P y"
proof (induction w arbitrary: x)
  case Nil
  then show ?case by simp
next
  case (Cons c w)
  then obtain d x' where x: "x = d # x'" by (cases x) auto
  with Cons(2) have "d = c" "match_here (lits w @ P) x'" by simp_all
  with Cons(1)[of x'] x show ?case by auto
qed

lemma fullmatch_from_pat:
  assumes "re_fullmatch (from_pat Q1 b Q2) x"
  shows "\<exists>q1 q2. x = from_str q1 b q2 \<and> atom_ok Q1 q1 \<and> atom_ok Q2 q2"
proof -
  from assms have m: "match_here (lits ''from '' @ Q1 # lits b @ [Q2]) x"
    and l: "length x = length b + 7"
    by (simp_all add: re_fullmatch_def from_pat_def length_lits del: lits_Cons)
  from match_here_lits_append[OF m] obtain y where y: "x = ''from '' @ y" "match_here (Q1 # lits b @ [Q2]) y"
    by blast
  then obtain q1 y' where y': "y = q1 # y'" "atom_ok Q1 q1" "match_here (lits b @ [Q2]) y'"
    by (cases y) auto
  from match_here_lits_append[OF y'(3)] obtain z where z: "y' = b @ z" "match_here [Q2] z" by blast
  then obtain q2 z' where z': "z = q2 # z'" "atom_ok Q2 q2" by (cases z) auto
  from l y y' z z' have "z' = []" by simp
  with y y' z z' show ?thesis by (auto simp: from_str_def)
qed

lemma final_rewritten:
  assumes "(pattern, replacement) \<in> set FIXES" "re_fullmatch pattern x" "str_in x content"
  shows "str_in replacement (apply_fixes content) \<and> (\<exists>new_path. replacement = from_lit sq new_path)"
proof -
  from assms(1) obtain old new where e: "(old, new) \<in> set FIX_PATHS"
    and pr: "pattern = from_re old" "replacement = from_lit sq new"
    by (auto simp: FIXES_paths)
  from fixes_plain e have p: "plain old" by (auto simp: list_all_iff)
  from fullmatch_from_pat[of "OneOf [sq, dq]" old "OneOf [sq, dq]" x] assms(2) pr(1)
  obtain q1 q2 where x: "x = from_str q1 old q2" and q: "q1 = sq \<or> q1 = dq" "q2 = sq \<or> q2 = dq"
    by (auto simp: from_re_from_pat)
  from final_routes e q have "route styles_final FIX_PATHS (q1, old, q2) = (sq, new, sq)"
    by (auto simp: list_all_iff)
  with final_route[of q1 q2 old content] q p assms(3) x pr(2)
  show ?thesis by (auto simp: shown_def from_lit_from_str is_quote_def)
qed

section \<open>The per-file functions, case by case\<close>

lemma read_text_ok:
  "read_error (disk w p) = None \<Longrightarrow>
   read_text w p = (Inr (text_of (disk w p)), w\<lparr>opened := opened w @ [(p, ''r'')]\<rparr>)"
  by (simp add: read_text_def)

lemma read_text_fails:
  "read_error (disk w p) = Some e \<Longrightarrow>
   read_text w p = (Inl e, w\<lparr>opened := opened w @ [(p, ''r'')]\<rparr>)"
  by (simp add: read_text_def)

lemma fix_file_unreadable:
  "read_error (disk w p) = Some e \<Longrightarrow>
   fix_file w p =
     (False, print (''Error: '' @ p @ '': '' @ str_exc e) (w\<lparr>opened := opened w @ [(p, ''r'')]\<rparr>))"
  by (simp add: fix_file_def read_text_fails)

lemma fix_file_unchanged:
  "read_error (disk w p) = None \<Longrightarrow> apply_fixes (text_of (disk w p)) = text_of (disk w p) \<Longrightarrow>
   fix_file w p = (False, w\<lparr>opened := opened w @ [(p, ''r'')]\<rparr>)"
  by (simp add: fix_file_def read_text_ok Let_def)

lemma fix_file_unwritable:
  "read_error (disk w p) = None \<Longrightarrow> apply_fixes (text_of (disk w p)) \<noteq> text_of (disk w p) \<Longrightarrow>
   write_error (disk w p) = Some e \<Longrightarrow>
   fix_file w p =
     (False, print (''Error: '' @ p @ '': '' @ str_exc e)
               (w\<lparr>opened := opened w @ [(p, ''r''), (p, ''w'')]\<rparr>))"
  by (simp add: fix_file_def read_text_ok Let_def write_text_def)

lemma fix_file_written:
  "read_error (disk w p) = None \<Longrightarrow> apply_fixes (text_of (disk w p)) \<noteq> text_of (disk w p) \<Longrightarrow>
   write_error (disk w p) = None \<Longrightarrow>
   fix_file w p =
     (True, w\<lparr>opened := opened w @ [(p, ''r''), (p, ''w'')],
              disk := (disk w)(p := (disk w p)\<lparr>text_of := apply_fixes (text_of (disk w p))\<rparr>)\<rparr>)"
  by (simp add: fix_file_def read_text_ok Let_def write_text_def)

lemma fix_imports_unreadable:
  "read_error (disk w p) = Some e \<Longrightarrow>
   fix_imports_in_file w p =
     (False, print (''Error processing '' @ p @ '': '' @ str_exc e)
               (w\<lparr>opened := opened w @ [(p, ''r'')]\<rparr>))"
  by (simp add: fix_imports_in_file_def read_text_fails)

lemma fix_imports_unchanged:
  "read_error (disk w p) = None \<Longrightarrow> fst (rewrite_imports (text_of (disk w p))) = text_of (disk w p) \<Longrightarrow>
   fix_imports_in_file w p = (False, w\<lparr>opened := opened w @ [(p, ''r'')]\<rparr>)"
  using changes_made_iff[of "text_of (disk w p)"]
  by (cases "rewrite_imports (text_of (disk w p))") (simp add: fix_imports_in_file_def read_text_ok)

lemma fix_imports_unwritable:
  "read_error (disk w p) = None \<Longrightarrow> fst (rewrite_imports (text_of (disk w p))) \<noteq> text_of (disk w p) \<Longrightarrow>
   write_error (disk w p) = Some e \<Longrightarrow>
   fix_imports_in_file w p =
     (False, print (''Error processing '' @ p @ '': '' @ str_exc e)
               (w\<lparr>opened := opened w @ [(p, ''r''), (p, ''w'')]\<rparr>))"
  using changes_made_iff[of "text_of (disk w p)"]
  by (cases "rewrite_imports (text_of (disk w p))")
     (simp add: fix_imports_in_file_def read_text_ok write_text_def)

lemma fix_imports_written:
  "read_error (disk w p) = None \<Longrightarrow> fst (rewrite_imports (text_of (disk w p))) \<noteq> text_of (disk w p) \<Longrightarrow>
   write_error (disk w p) = None \<Longrightarrow>
   fix_imports_in_file w p =
     (True, w\<lparr>opened := opened w @ [(p, ''r''), (p, ''w'')],
              disk := (disk w)(p := (disk w p)\<lparr>text_of := fst (rewrite_imports (text_of (disk w p)))\<rparr>)\<rparr>)"
  using changes_made_iff[of "text_of (disk w p)"]
  by (cases "rewrite_imports (text_of (disk w p))")
     (simp add: fix_imports_in_file_def read_text_ok write_text_def)

lemma no_fix_matches:
  "list_all (\<lambda>(pattern, replacement). \<not> re_search pattern c) FIXES \<Longrightarrow> apply_fixes c = c"
  by (rule apply_fixes_untouched)

lemma no_import_matches:
  assumes "list_all (\<lambda>(old_path, new_path).
             list_all (\<lambda>(old_pattern, new_pattern). \<not> str_in old_pattern c)
               (patterns old_path new_path)) IMPORT_MAP"
  shows "rewrite_imports c = (c, False)"
proof -
  from assms have "\<not> list_ex (occurs c) IMPORT_MAP"
    by (auto simp: list_all_iff list_ex_iff occurs_def patterns_def)
  then show ?thesis by (rule rewrite_imports_untouched)
qed

lemma visit_final_unreported:
  "fst (fix_file w p) = False \<Longrightarrow>
   visit_final (fixed, w) p =
     Inr (fixed, if str_in ''node_modules'' p \<or> str_in ''.next'' p then w else snd (fix_file w p))"
  by (cases "fix_file w p") (simp add: visit_final_def)

lemma visit_imports_unreported:
  "fst (fix_imports_in_file w p) = False \<Longrightarrow>
   visit_imports (total_files, fixed_files, w) p =
     Inr (total_files + 1, fixed_files, snd (fix_imports_in_file w p))"
  by (cases "fix_imports_in_file w p") (simp add: visit_imports_def)

lemma opened_fix_file:
  "opened (snd (fix_file w p)) =
     opened w @ (p, ''r'') #
       (if read_error (disk w p) = None \<and> apply_fixes (text_of (disk w p)) \<noteq> text_of (disk w p)
        then [(p, ''w'')] else [])"
proof (cases "read_error (disk w p)")
  case (Some e)
  then show ?thesis by (simp add: fix_file_unreadable print_def)
next
  case None
  show ?thesis
  proof (cases "apply_fixes (text_of (disk w p)) = text_of (disk w p)")
    case True
    with None show ?thesis by (simp add: fix_file_unchanged)
  next
    case False
    with None show ?thesis
      by (cases "write_error (disk w p)") (simp_all add: fix_file_unwritable fix_file_written print_def)
  qed
qed

lemma opened_fix_imports:
  "opened (snd (fix_imports_in_file w p)) =
     opened w @ (p, ''r'') #
       (if read_error (disk w p) = None
           \<and> fst (rewrite_imports (text_of (disk w p))) \<noteq> text_of (disk w p)
        then [(p, ''w'')] else [])"
proof (cases "read_error (disk w p)")
  case (Some e)
  then show ?thesis by (simp add: fix_imports_unreadable print_def)
next
  case None
  show ?thesis
  proof (cases "fst (rewrite_imports (text_of (disk w p))) = text_of (disk w p)")
    case True
    with None show ?thesis by (simp add: fix_imports_unchanged)
  next
    case False
    with None show ?thesis
      by (cases "write_error (disk w p)")
         (simp_all add: fix_imports_unwritable fix_imports_written print_def)
  qed
qed

lemma history_route_20:
  "route styles_imports (take 20 IMPORT_MAP) (sq, ''./user-history-utils'', sq)
     = (sq, ''./user/user-history-utils'', sq)
   \<and> route styles_imports (take 20 IMPORT_MAP) (dq, ''./user-history-utils'', dq)
     = (dq, ''./user/user-history-utils'', dq)"
  by code_simp

lemma history_route_21:
  "route styles_imports (take 21 IMPORT_MAP) (sq, ''./user-history-utils'', sq)
     = (sq, ''../user/user-history-utils'', sq)
   \<and> route styles_imports (take 21 IMPORT_MAP) (dq, ''./user-history-utils'', dq)
     = (dq, ''../user/user-history-utils'', dq)"
  by code_simp

lemma take_21_IMPORT_MAP: "take 21 IMPORT_MAP = IMPORT_MAP"
  by (simp add: IMPORT_MAP_def)

section \<open>The loops of the two \<^verbatim>\<open>main\<close> functions\<close>

lemma fix_file_gen: "fix_file w p = gen_fix apply_fixes ''Error: '' w p"
  by (simp add: fix_file_def gen_fix_def read_text_def write_text_def Let_def
           split: option.splits)

lemma fix_imports_gen:
  "fix_imports_in_file w p = gen_fix (\<lambda>c. fst (rewrite_imports c)) ''Error processing '' w p"
  using changes_made_iff[of "text_of (disk w p)"]
  by (cases "rewrite_imports (text_of (disk w p))")
     (auto simp: fix_imports_in_file_def gen_fix_def read_text_def write_text_def Let_def
           split: option.splits)

lemma visit_final_gen:
  "prefix (ROOT @ ''/'') p \<Longrightarrow>
   visit_final st p = Inr (gen_after excluded (gen_fix apply_fixes ''Error: '') line_final st p)"
  by (cases st; cases "gen_fix apply_fixes ''Error: '' (snd st) p")
     (simp add: visit_final_def gen_after_def excluded_def fix_file_gen relative_to_def
        line_final_def)

lemma visit_imports_gen:
  "prefix (root @ ''/'') p \<Longrightarrow>
   visit_imports (total_files, st) p =
     Inr (total_files + 1,
          gen_after (\<lambda>p. False) (gen_fix (\<lambda>c. fst (rewrite_imports c)) ''Error processing '')
            line_imports st p)"
  by (cases st; cases "gen_fix (\<lambda>c. fst (rewrite_imports c)) ''Error processing '' (snd st) p")
     (simp add: visit_imports_def gen_after_def fix_imports_gen relative_to_def line_imports_def)

text \<open>One step of the loop, field by field.\<close>

lemma gen_after_frame:
  assumes "gen_after skip (gen_fix f pre) line (fixed, w) p = (fixed', w')"
  shows "listing w' = listing w" "stderr w' = stderr w"
    "read_error (disk w' x) = read_error (disk w x)"
    "write_error (disk w' x) = write_error (disk w x)"
  using assms
  by (auto simp: gen_after_def gen_fix_def Let_def print_def split: if_splits option.splits)

lemma gen_after_opened:
  assumes "gen_after skip (gen_fix f pre) line (fixed, w) p = (fixed', w')"
  shows "opened w' = opened w @
           (if skip p then []
            else (p, ''r'') #
              (if read_error (disk w p) = None \<and> f (text_of (disk w p)) \<noteq> text_of (disk w p)
               then [(p, ''w'')] else []))"
  using assms
  by (auto simp: gen_after_def gen_fix_def Let_def print_def split: if_splits option.splits)

lemma gen_after_text:
  assumes "gen_after skip (gen_fix f pre) line (fixed, w) p = (fixed', w')"
  shows "text_of (disk w' x) =
           (if x = p \<and> \<not> skip p \<and> read_error (disk w p) = None \<and> write_error (disk w p) = None
            then f (text_of (disk w p)) else text_of (disk w x))"
  using assms
  by (auto simp: gen_after_def gen_fix_def Let_def print_def split: if_splits option.splits)

lemma gen_after_stdout:
  assumes "gen_after skip (gen_fix f pre) line (fixed, w) p = (fixed', w')"
  shows "stdout w' = stdout w @
           (case outcome skip f w p of
              None \<Rightarrow> []
            | Some (Some e) \<Rightarrow> [pre @ p @ '': '' @ str_exc e]
            | Some None \<Rightarrow> [line p])"
    and "fixed' = fixed + (if outcome skip f w p = Some None then 1 else 0)"
  using assms
  by (auto simp: gen_after_def gen_fix_def outcome_def Let_def print_def
           split: if_splits option.splits)

lemma rglob_prefix: "p \<in> set (rglob w dir pat) \<Longrightarrow> prefix (dir @ ''/'') p"
  by (simp add: rglob_def)

lemma rglob_listing: "listing w' = listing w \<Longrightarrow> rglob w' dir pat = rglob w dir pat"
  by (simp add: rglob_def)

lemma rglob_missing: "\<not> exists w dir \<Longrightarrow> rglob w dir pat = []"
  by (auto simp: exists_def rglob_def list_ex_iff filter_empty_conv)

lemma gen_fold_frame:
  "foldl (gen_after skip (gen_fix f pre) line) (fixed, w) files = (fixed', w') \<Longrightarrow>
   listing w' = listing w \<and> stderr w' = stderr w
   \<and> read_error (disk w' x) = read_error (disk w x)
   \<and> write_error (disk w' x) = write_error (disk w x)"
proof (induction files arbitrary: fixed w)
  case Nil
  then show ?case by simp
next
  case (Cons p files)
  obtain f1 w1 where 1: "gen_after skip (gen_fix f pre) line (fixed, w) p = (f1, w1)"
    by (cases "gen_after skip (gen_fix f pre) line (fixed, w) p") auto
  with Cons(2) have "foldl (gen_after skip (gen_fix f pre) line) (f1, w1) files = (fixed', w')"
    by simp
  from Cons(1)[OF this] gen_after_frame(1,2)[OF 1] gen_after_frame(3,4)[OF 1, of x]
  show ?case by simp
qed

lemma gen_fold_opened:
  "foldl (gen_after skip (gen_fix f pre) line) (fixed, w) files = (fixed', w') \<Longrightarrow>
   \<exists>log. opened w' = opened w @ log
       \<and> (\<forall>x m. (x, m) \<in> set log \<longrightarrow> x \<in> set files \<and> \<not> skip x)
       \<and> (\<forall>x\<in>set files. \<not> skip x \<longrightarrow> (x, ''r'') \<in> set log)"
proof (induction files arbitrary: fixed w)
  case Nil
  then show ?case by simp
next
  case (Cons p files)
  obtain f1 w1 where 1: "gen_after skip (gen_fix f pre) line (fixed, w) p = (f1, w1)"
    by (cases "gen_after skip (gen_fix f pre) line (fixed, w) p") auto
  with Cons(2) have "foldl (gen_after skip (gen_fix f pre) line) (f1, w1) files = (fixed', w')"
    by simp
  from Cons(1)[OF this] obtain log where log: "opened w' = opened w1 @ log"
    "\<forall>x m. (x, m) \<in> set log \<longrightarrow> x \<in> set files \<and> \<not> skip x"
    "\<forall>x\<in>set files. \<not> skip x \<longrightarrow> (x, ''r'') \<in> set log" by blast
  let ?l = "(if skip p then []
            else (p, ''r'') #
              (if read_error (disk w p) = None \<and> f (text_of (disk w p)) \<noteq> text_of (disk w p)
               then [(p, ''w'')] else []))"
  from gen_after_opened[OF 1] have o: "opened w1 = opened w @ ?l" .
  have "opened w' = opened w @ (?l @ log)" using o log(1) by simp
  moreover have "\<forall>x m. (x, m) \<in> set (?l @ log) \<longrightarrow> x \<in> set (p # files) \<and> \<not> skip x"
    using log(2) by (auto split: if_splits)
  moreover have "\<forall>x\<in>set (p # files). \<not> skip x \<longrightarrow> (x, ''r'') \<in> set (?l @ log)"
    using log(3) by auto
  ultimately show ?case by blast
qed

lemma gen_fold_text:
  assumes idem: "\<And>c. f (f c) = f c"
  shows "foldl (gen_after skip (gen_fix f pre) line) (fixed, w) files = (fixed', w') \<Longrightarrow>
   text_of (disk w' x) =
     (if x \<in> set files \<and> \<not> skip x \<and> read_error (disk w x) = None \<and> write_error (disk w x) = None
      then f (text_of (disk w x)) else text_of (disk w x))"
proof (induction files arbitrary: fixed w)
  case Nil
  then show ?case by simp
next
  case (Cons p files)
  obtain f1 w1 where 1: "gen_after skip (gen_fix f pre) line (fixed, w) p = (f1, w1)"
    by (cases "gen_after skip (gen_fix f pre) line (fixed, w) p") auto
  with Cons(2) have "foldl (gen_after skip (gen_fix f pre) line) (f1, w1) files = (fixed', w')"
    by simp
  from Cons(1)[OF this] gen_after_frame(3,4)[OF 1, of x] gen_after_text[OF 1, of x] idem
  show ?case by auto
qed

lemma gen_fold_stdout:
  assumes mark: "\<And>p. prefix check_mark (line p)" and err: "\<And>s. \<not> prefix check_mark (pre @ s)"
  shows "foldl (gen_after skip (gen_fix f pre) line) (fixed, w) files = (fixed', w') \<Longrightarrow>
   \<exists>lines. stdout w' = stdout w @ lines
       \<and> fixed' = fixed + length (filter (prefix check_mark) lines)
       \<and> (\<forall>x\<in>set files. \<forall>e. \<not> skip x \<and> read_error (disk w x) = Some e
             \<longrightarrow> pre @ x @ '': '' @ str_exc e \<in> set lines)"
proof (induction files arbitrary: fixed w)
  case Nil
  then show ?case by simp
next
  case (Cons p files)
  obtain f1 w1 where 1: "gen_after skip (gen_fix f pre) line (fixed, w) p = (f1, w1)"
    by (cases "gen_after skip (gen_fix f pre) line (fixed, w) p") auto
  with Cons(2) have "foldl (gen_after skip (gen_fix f pre) line) (f1, w1) files = (fixed', w')"
    by simp
  from Cons(1)[OF this] obtain lines where lines: "stdout w' = stdout w1 @ lines"
    "fixed' = f1 + length (filter (prefix check_mark) lines)"
    "\<forall>x\<in>set files. \<forall>e. \<not> skip x \<and> read_error (disk w1 x) = Some e
        \<longrightarrow> pre @ x @ '': '' @ str_exc e \<in> set lines" by blast
  let ?l = "(case outcome skip f w p of
              None \<Rightarrow> []
            | Some (Some e) \<Rightarrow> [pre @ p @ '': '' @ str_exc e]
            | Some None \<Rightarrow> [line p])"
  from gen_after_stdout[OF 1] have s: "stdout w1 = stdout w @ ?l"
    and n: "f1 = fixed + (if outcome skip f w p = Some None then 1 else 0)" by simp_all
  have c: "length (filter (prefix check_mark) ?l) = (if outcome skip f w p = Some None then 1 else 0)"
    using mark err by (auto split: option.splits)
  have "stdout w' = stdout w @ (?l @ lines)" using s lines(1) by simp
  moreover have "fixed' = fixed + length (filter (prefix check_mark) (?l @ lines))"
    using lines(2) n c by simp
  moreover have "\<forall>x\<in>set (p # files). \<forall>e. \<not> skip x \<and> read_error (disk w x) = Some e
        \<longrightarrow> pre @ x @ '': '' @ str_exc e \<in> set (?l @ lines)"
  proof (intro ballI allI impI)
    fix x e assume x: "x \<in> set (p # files)" and h: "\<not> skip x \<and> read_error (disk w x) = Some e"
    show "pre @ x @ '': '' @ str_exc e \<in> set (?l @ lines)"
    proof (cases "x = p")
      case True
      with h have "outcome skip f w p = Some (Some e)" by (simp add: outcome_def)
      with True show ?thesis by simp
    next
      case False
      with x have "x \<in> set files" by simp
      moreover from h gen_after_frame(3)[OF 1, of x] have "read_error (disk w1 x) = Some e" by simp
      ultimately show ?thesis using lines(3) h by auto
    qed
  qed
  ultimately show ?case by blast
qed

text \<open>The loops never raise: every path they visit lies below the root.\<close>

lemma for_each_visit_final:
  "\<forall>p\<in>set files. prefix (ROOT @ ''/'') p \<Longrightarrow>
   for_each visit_final st files =
     Inr (foldl (gen_after excluded (gen_fix apply_fixes ''Error: '') line_final) st files)"
  by (induction files arbitrary: st) (simp_all add: visit_final_gen)

lemma for_each_visit_imports:
  "\<forall>p\<in>set files. prefix (root @ ''/'') p \<Longrightarrow>
   for_each visit_imports (total_files, st) files =
     Inr (total_files + length files,
          foldl (gen_after (\<lambda>p. False) (gen_fix (\<lambda>c. fst (rewrite_imports c)) ''Error processing '')
                   line_imports) st files)"
  by (induction files arbitrary: total_files st) (simp_all add: visit_imports_gen)

lemma main_final_run:
  "main_final w =
     (case foldl (gen_after excluded (gen_fix apply_fixes ''Error: '') line_final) (0, w)
             (final_files w) of
        (fixed, w1) \<Rightarrow> Inr (print (summary_final fixed) w1))"
proof -
  let ?ga = "gen_after excluded (gen_fix apply_fixes ''Error: '') line_final"
  obtain f1 w1 where 1: "foldl ?ga (0, w) (rglob w ROOT ''*.ts'') = (f1, w1)"
    by (cases "foldl ?ga (0, w) (rglob w ROOT ''*.ts'')") auto
  from gen_fold_frame[OF 1] have l: "listing w1 = listing w" by simp
  have a: "scan_final (0, w) ''*.ts'' = Inr (f1, w1)"
    using for_each_visit_final[of "rglob w ROOT ''*.ts''" "(0, w)"] 1
    by (simp add: scan_final_def rglob_prefix)
  have b: "scan_final (f1, w1) ''*.tsx'' = Inr (foldl ?ga (f1, w1) (rglob w ROOT ''*.tsx''))"
    using for_each_visit_final[of "rglob w ROOT ''*.tsx''" "(f1, w1)"]
    by (simp add: scan_final_def rglob_prefix rglob_listing[OF l])
  have "foldl ?ga (0, w) (final_files w) = foldl ?ga (f1, w1) (rglob w ROOT ''*.tsx'')"
    using 1 by (simp add: final_files_def)
  with a b show ?thesis by (simp add: main_final_def)
qed

lemma dir_files_listing: "listing w' = listing w \<Longrightarrow> dir_files w' d = dir_files w d"
  by (simp add: dir_files_def rglob_def)

lemma rglob_below_root:
  "p \<in> set (rglob w (root @ ''/'' @ d) pat) \<Longrightarrow> prefix (root @ ''/'') p"
proof -
  assume "p \<in> set (rglob w (root @ ''/'' @ d) pat)"
  then have "prefix ((root @ ''/'') @ (d @ ''/'')) p" using rglob_prefix[of p w "root @ ''/'' @ d" pat] by simp
  then show ?thesis by (rule append_prefixD)
qed

lemma scan_dir_run:
  "scan_dir (total_files, fixed_files, w) d =
     Inr (total_files + length (dir_files w d),
          foldl (gen_after (\<lambda>p. False) (gen_fix (\<lambda>c. fst (rewrite_imports c)) ''Error processing '')
                   line_imports) (fixed_files, w) (dir_files w d))"
proof (cases "exists w (root @ ''/'' @ d)")
  case False
  then have "dir_files w d = []" by (simp add: dir_files_def rglob_missing)
  with False show ?thesis by (simp add: scan_dir_def)
next
  case True
  let ?gi = "gen_after (\<lambda>p. False) (gen_fix (\<lambda>c. fst (rewrite_imports c)) ''Error processing '') line_imports"
  let ?dir = "root @ ''/'' @ d"
  obtain f1 w1 where 1: "foldl ?gi (fixed_files, w) (rglob w ?dir ''*.ts'') = (f1, w1)"
    by (cases "foldl ?gi (fixed_files, w) (rglob w ?dir ''*.ts'')") auto
  from gen_fold_frame[OF 1] have l: "listing w1 = listing w" by simp
  have u1: "\<forall>p\<in>set (rglob w ?dir ''*.ts''). prefix (root @ ''/'') p"
    using rglob_below_root by blast
  have u2: "\<forall>p\<in>set (rglob w ?dir ''*.tsx''). prefix (root @ ''/'') p"
    using rglob_below_root by blast
  have a: "scan_ext ?dir (total_files, fixed_files, w) ''*.ts''
             = Inr (total_files + length (rglob w ?dir ''*.ts''), f1, w1)"
    unfolding scan_ext_def prod.case for_each_visit_imports[OF u1] 1 ..
  have b: "scan_ext ?dir (total_files + length (rglob w ?dir ''*.ts''), f1, w1) ''*.tsx''
             = Inr (total_files + length (rglob w ?dir ''*.ts'') + length (rglob w ?dir ''*.tsx''),
                    foldl ?gi (f1, w1) (rglob w ?dir ''*.tsx''))"
    unfolding scan_ext_def prod.case rglob_listing[OF l] for_each_visit_imports[OF u2] ..
  have "foldl ?gi (fixed_files, w) (dir_files w d) = foldl ?gi (f1, w1) (rglob w ?dir ''*.tsx'')"
    using 1 by (simp add: dir_files_def)
  with True a b show ?thesis by (simp add: scan_dir_def dir_files_def Let_def)
qed

lemma for_each_scan_dir:
  "for_each scan_dir (total_files, fixed_files, w) dirs =
     Inr (total_files + length (concat (map (dir_files w) dirs)),
          foldl (gen_after (\<lambda>p. False) (gen_fix (\<lambda>c. fst (rewrite_imports c)) ''Error processing '')
                   line_imports) (fixed_files, w) (concat (map (dir_files w) dirs)))"
proof (induction dirs arbitrary: total_files fixed_files w)
  case Nil
  then show ?case by simp
next
  case (Cons d dirs)
  let ?gi = "gen_after (\<lambda>p. False) (gen_fix (\<lambda>c. fst (rewrite_imports c)) ''Error processing '') line_imports"
  obtain f1 w1 where 1: "foldl ?gi (fixed_files, w) (dir_files w d) = (f1, w1)"
    by (cases "foldl ?gi (fixed_files, w) (dir_files w d)") auto
  from gen_fold_frame[OF 1] have l: "listing w1 = listing w" by simp
  have m: "map (dir_files w1) dirs = map (dir_files w) dirs"
    by (simp add: dir_files_listing[OF l])
  from scan_dir_run[of total_files fixed_files w d] 1
  have s: "scan_dir (total_files, fixed_files, w) d = Inr (total_files + length (dir_files w d), f1, w1)"
    by simp
  from Cons[of "total_files + length (dir_files w d)" f1 w1] s 1 m
  show ?case by simp
qed

lemma main_imports_run:
  "main_imports w =
     (case foldl (gen_after (\<lambda>p. False) (gen_fix (\<lambda>c. fst (rewrite_imports c)) ''Error processing '')
                    line_imports) (0, w) (imports_files w) of
        (fixed_files, w1) \<Rightarrow>
          Inr (print (summary_imports fixed_files (length (imports_files w))) w1))"
proof -
  let ?gi = "gen_after (\<lambda>p. False) (gen_fix (\<lambda>c. fst (rewrite_imports c)) ''Error processing '') line_imports"
  obtain f1 w1 where 1: "foldl ?gi (0, w) (imports_files w) = (f1, w1)"
    by (cases "foldl ?gi (0, w) (imports_files w)") auto
  from for_each_scan_dir[of 0 0 w dirs_to_scan] 1
  have "for_each scan_dir (0, 0, w) dirs_to_scan = Inr (length (imports_files w), f1, w1)"
    by (simp add: imports_files_def)
  with 1 show ?thesis by (simp add: main_imports_def)
qed

lemma line_final_mark: "prefix check_mark (line_final p)"
  by (simp add: line_final_def)

lemma line_imports_mark: "prefix check_mark (line_imports p)"
  by (simp add: line_imports_def)

lemma error_no_mark: "\<not> prefix check_mark (''Error: '' @ s)"
  by (simp add: check_mark_def)

lemma error_processing_no_mark: "\<not> prefix check_mark (''Error processing '' @ s)"
  by (simp add: check_mark_def)

lemma gen_after_skipped:
  assumes "gen_after skip (gen_fix f pre) line (fixed, w) p = (fixed', w')" "skip x"
  shows "disk w' x = disk w x"
  using assms
  by (auto simp: gen_after_def gen_fix_def Let_def print_def split: if_splits option.splits)

lemma gen_fold_skipped:
  "foldl (gen_after skip (gen_fix f pre) line) (fixed, w) files = (fixed', w') \<Longrightarrow> skip x \<Longrightarrow>
   disk w' x = disk w x"
proof (induction files arbitrary: fixed w)
  case Nil
  then show ?case by simp
next
  case (Cons p files)
  obtain f1 w1 where 1: "gen_after skip (gen_fix f pre) line (fixed, w) p = (f1, w1)"
    by (cases "gen_after skip (gen_fix f pre) line (fixed, w) p") auto
  with Cons(2) have "foldl (gen_after skip (gen_fix f pre) line) (f1, w1) files = (fixed', w')"
    by simp
  from Cons(1)[OF this Cons(3)] gen_after_skipped[OF 1 Cons(3)] show ?case by simp
qed

lemma outcome_failure_stable:
  assumes "gen_after skip (gen_fix f pre) line (fixed, w) p = (fixed', w')"
    and "outcome skip f w x = Some (Some e)"
  shows "outcome skip f w' x = Some (Some e)"
proof -
  from assms(2) have "read_error (disk w x) \<noteq> None \<or> write_error (disk w x) \<noteq> None"
    by (auto simp: outcome_def split: if_splits option.splits)
  with gen_after_text[OF assms(1), of x] have "text_of (disk w' x) = text_of (disk w x)" by auto
  with gen_after_frame(3,4)[OF assms(1), of x]
  have "outcome skip f w' x = outcome skip f w x"
    by (simp add: outcome_def cong: option.case_cong if_cong)
  with assms(2) show ?thesis by simp
qed

lemma gen_fold_failures:
  "foldl (gen_after skip (gen_fix f pre) line) (fixed, w) files = (fixed', w') \<Longrightarrow>
   x \<in> set files \<Longrightarrow> outcome skip f w x = Some (Some e) \<Longrightarrow>
   pre @ x @ '': '' @ str_exc e \<in> set (stdout w')"
proof (induction files arbitrary: fixed w)
  case Nil
  then show ?case by simp
next
  case (Cons p files)
  obtain f1 w1 where 1: "gen_after skip (gen_fix f pre) line (fixed, w) p = (f1, w1)"
    by (cases "gen_after skip (gen_fix f pre) line (fixed, w) p") auto
  with Cons(2) have 2: "foldl (gen_after skip (gen_fix f pre) line) (f1, w1) files = (fixed', w')"
    by simp
  show ?case
  proof (cases "x \<in> set files")
    case True
    from Cons(1)[OF 2 True outcome_failure_stable[OF 1 Cons(4)]] show ?thesis .
  next
    case False
    with Cons(3) have xp: "x = p" by simp
    from gen_after_stdout(1)[OF 1] Cons(4) xp
    have "pre @ x @ '': '' @ str_exc e \<in> set (stdout w1)" by simp
    moreover have "set (stdout w1) \<subseteq> set (stdout w')"
      using 2
    proof (induction files arbitrary: f1 w1)
      case Nil
      then show ?case by simp
    next
      case (Cons q files)
      obtain f2 w2 where 3: "gen_after skip (gen_fix f pre) line (f1, w1) q = (f2, w2)"
        by (cases "gen_after skip (gen_fix f pre) line (f1, w1) q") auto
      with Cons(2) have "foldl (gen_after skip (gen_fix f pre) line) (f2, w2) files = (fixed', w')"
        by simp
      from Cons(1)[OF this] gen_after_stdout(1)[OF 3] show ?case by auto
    qed
    ultimately show ?thesis by blast
  qed
qed

section \<open>What a run of \<^verbatim>\<open>main\<close> does\<close>

lemma str_in_trans: "str_in a b \<Longrightarrow> str_in b c \<Longrightarrow> str_in a c"
  unfolding str_in_sublist sublist_def by (metis append.assoc)

lemma main_final_facts:
  obtains w' lines log where
    "main_final w = Inr w'"
    "stdout w' = stdout w @ lines @ [summary_final (length (filter (prefix check_mark) lines))]"
    "stderr w' = stderr w" "listing w' = listing w"
    "opened w' = opened w @ log"
    "\<forall>x m. (x, m) \<in> set log \<longrightarrow> x \<in> set (final_files w) \<and> \<not> excluded x"
    "\<forall>x\<in>set (final_files w). \<not> excluded x \<longrightarrow> (x, ''r'') \<in> set log"
    "\<forall>x. text_of (disk w' x) =
       (if x \<in> set (final_files w) \<and> \<not> excluded x
           \<and> read_error (disk w x) = None \<and> write_error (disk w x) = None
        then apply_fixes (text_of (disk w x)) else text_of (disk w x))"
    "\<forall>x. excluded x \<longrightarrow> disk w' x = disk w x"
    "\<forall>x e. x \<in> set (final_files w) \<and> outcome excluded apply_fixes w x = Some (Some e)
       \<longrightarrow> ''Error: '' @ x @ '': '' @ str_exc e \<in> set (stdout w')"
proof -
  let ?ga = "gen_after excluded (gen_fix apply_fixes ''Error: '') line_final"
  obtain fixed' w1 where 1: "foldl ?ga (0, w) (final_files w) = (fixed', w1)"
    by (cases "foldl ?ga (0, w) (final_files w)") auto
  let ?w' = "print (summary_final fixed') w1"
  from 1 have m: "main_final w = Inr ?w'" by (simp add: main_final_run)
  from gen_fold_stdout[OF line_final_mark error_no_mark 1] obtain lines where
    l: "stdout w1 = stdout w @ lines" "fixed' = length (filter (prefix check_mark) lines)"
    by auto
  from gen_fold_opened[OF 1] obtain log where
    g: "opened w1 = opened w @ log"
      "\<forall>x m. (x, m) \<in> set log \<longrightarrow> x \<in> set (final_files w) \<and> \<not> excluded x"
      "\<forall>x\<in>set (final_files w). \<not> excluded x \<longrightarrow> (x, ''r'') \<in> set log"
    by blast
  have a: "stdout ?w' = stdout w @ lines @ [summary_final (length (filter (prefix check_mark) lines))]"
    using l by (simp add: print_def)
  have b: "stderr ?w' = stderr w" "listing ?w' = listing w"
    using gen_fold_frame[OF 1] by (simp_all add: print_def)
  have c: "opened ?w' = opened w @ log" using g(1) by (simp add: print_def)
  have d: "\<forall>x. text_of (disk ?w' x) =
       (if x \<in> set (final_files w) \<and> \<not> excluded x
           \<and> read_error (disk w x) = None \<and> write_error (disk w x) = None
        then apply_fixes (text_of (disk w x)) else text_of (disk w x))"
    using gen_fold_text[OF apply_fixes_idem 1] by (simp add: print_def)
  have e: "\<forall>x. excluded x \<longrightarrow> disk ?w' x = disk w x"
    using gen_fold_skipped[OF 1] by (simp add: print_def)
  have f: "\<forall>x e. x \<in> set (final_files w) \<and> outcome excluded apply_fixes w x = Some (Some e)
       \<longrightarrow> ''Error: '' @ x @ '': '' @ str_exc e \<in> set (stdout ?w')"
    using gen_fold_failures[OF 1] by (simp add: print_def)
  from that[OF m a b c g(2,3) d e f] show ?thesis .
qed

lemma main_imports_facts:
  obtains w' lines log where
    "main_imports w = Inr w'"
    "stdout w' = stdout w @ lines
       @ [summary_imports (length (filter (prefix check_mark) lines)) (length (imports_files w))]"
    "stderr w' = stderr w" "listing w' = listing w"
    "opened w' = opened w @ log"
    "\<forall>x m. (x, m) \<in> set log \<longrightarrow> x \<in> set (imports_files w)"
    "\<forall>x\<in>set (imports_files w). (x, ''r'') \<in> set log"
    "\<forall>x. text_of (disk w' x) =
       (if x \<in> set (imports_files w)
           \<and> read_error (disk w x) = None \<and> write_error (disk w x) = None
        then fst (rewrite_imports (text_of (disk w x))) else text_of (disk w x))"
    "\<forall>x e. x \<in> set (imports_files w)
         \<and> outcome (\<lambda>p. False) (\<lambda>c. fst (rewrite_imports c)) w x = Some (Some e)
       \<longrightarrow> ''Error processing '' @ x @ '': '' @ str_exc e \<in> set (stdout w')"
proof -
  let ?ga = "gen_after (\<lambda>p. False) (gen_fix (\<lambda>c. fst (rewrite_imports c)) ''Error processing '') line_imports"
  obtain fixed' w1 where 1: "foldl ?ga (0, w) (imports_files w) = (fixed', w1)"
    by (cases "foldl ?ga (0, w) (imports_files w)") auto
  let ?w' = "print (summary_imports fixed' (length (imports_files w))) w1"
  from 1 have m: "main_imports w = Inr ?w'" by (simp add: main_imports_run)
  from gen_fold_stdout[OF line_imports_mark error_processing_no_mark 1] obtain lines where
    l: "stdout w1 = stdout w @ lines" "fixed' = length (filter (prefix check_mark) lines)"
    by auto
  from gen_fold_opened[OF 1] obtain log where
    g: "opened w1 = opened w @ log"
      "\<forall>x m. (x, m) \<in> set log \<longrightarrow> x \<in> set (imports_files w)"
      "\<forall>x\<in>set (imports_files w). (x, ''r'') \<in> set log"
    by blast
  have a: "stdout ?w' = stdout w @ lines
       @ [summary_imports (length (filter (prefix check_mark) lines)) (length (imports_files w))]"
    using l by (simp add: print_def)
  have b: "stderr ?w' = stderr w" "listing ?w' = listing w"
    using gen_fold_frame[OF 1] by (simp_all add: print_def)
  have c: "opened ?w' = opened w @ log" using g(1) by (simp add: print_def)
  have d: "\<forall>x. text_of (disk ?w' x) =
       (if x \<in> set (imports_files w)
           \<and> read_error (disk w x) = None \<and> write_error (disk w x) = None
        then fst (rewrite_imports (text_of (disk w x))) else text_of (disk w x))"
    using gen_fold_text[where f = "\<lambda>c. fst (rewrite_imports c)", OF rewrite_imports_idem 1]
    by (simp add: print_def)
  have f: "\<forall>x e. x \<in> set (imports_files w)
         \<and> outcome (\<lambda>p. False) (\<lambda>c. fst (rewrite_imports c)) w x = Some (Some e)
       \<longrightarrow> ''Error processing '' @ x @ '': '' @ str_exc e \<in> set (stdout ?w')"
    using gen_fold_failures[OF 1] by (simp add: print_def)
  from that[OF m a b c g(2,3) d f] show ?thesis .
qed

lemma excluded_dir: "str_in ''/node_modules/'' x \<or> str_in ''/.next/'' x \<Longrightarrow> excluded x"
proof -
  have a: "str_in ''node_modules'' ''/node_modules/''" and b: "str_in ''.next'' ''/.next/''"
    by simp_all
  assume "str_in ''/node_modules/'' x \<or> str_in ''/.next/'' x"
  with str_in_trans[OF a, of x] str_in_trans[OF b, of x] show ?thesis
    by (auto simp: excluded_def)
qed

section \<open>The two scripts run on the example tree\<close>

lemma demo_final_run:
  "(case main_final demo_world of
      Inl e \<Rightarrow> False
    | Inr w' \<Rightarrow>
        stdout w' =
          [''Error: '' @ ROOT @ ''/app/locked.ts: [Errno 13] Permission denied'',
           check_mark @ '' app/api/route.ts'',
           ''Error: '' @ ROOT @ ''/lib/readonly.ts: [Errno 13] Permission denied'',
           check_mark @ '' app/page.tsx'',
           summary_final 2]
        \<and> stderr w' = []
        \<and> opened w' =
          [(ROOT @ ''/app/locked.ts'', ''r''),
           (ROOT @ ''/app/api/route.ts'', ''r''), (ROOT @ ''/app/api/route.ts'', ''w''),
           (ROOT @ ''/lib/utils/history.ts'', ''r''),
           (ROOT @ ''/lib/readonly.ts'', ''r''), (ROOT @ ''/lib/readonly.ts'', ''w''),
           (ROOT @ ''/lib/log.ts'', ''r''),
           (ROOT @ ''/lib/clean.ts'', ''r''),
           (ROOT @ ''/app/page.tsx'', ''r''), (ROOT @ ''/app/page.tsx'', ''w'')]
        \<and> text_of (disk w' (ROOT @ ''/app/api/route.ts''))
            = ''import { c } '' @ from_lit sq ''@/lib/solana/solana-connection-server''
        \<and> text_of (disk w' (ROOT @ ''/app/app.next.tsx''))
            = ''import { d } '' @ from_lit sq ''@/lib/program-metadata-cache''
        \<and> text_of (disk w' (ROOT @ ''/app/node_modules/pkg/index.ts''))
            = ''import { e } '' @ from_lit sq ''@/lib/program-metadata-cache'')"
  by code_simp

lemma demo_imports_run:
  "(case main_imports demo_world of
      Inl e \<Rightarrow> False
    | Inr w' \<Rightarrow>
        stdout w' =
          [''Error processing '' @ ROOT @ ''/app/locked.ts: [Errno 13] Permission denied'',
           check_mark @ '' Fixed: app/page.tsx'',
           check_mark @ '' Fixed: lib/utils/history.ts'',
           ''Error processing '' @ ROOT @ ''/lib/readonly.ts: [Errno 13] Permission denied'',
           check_mark @ '' Fixed: lib/log.ts'',
           summary_imports 3 9]
        \<and> stderr w' = []
        \<and> text_of (disk w' (ROOT @ ''/lib/utils/history.ts''))
            = ''import { h } '' @ from_lit sq ''../user/user-history-utils'')"
  by code_simp


section \<open>The claims\<close>

text \<open>
  Claim C1 (idempotence), as the code has it. Running the substitution pass of either
  script on its own output changes nothing: \<^verbatim>\<open>fix_imports_in_file\<close>'s pass returns the
  same content with \<^verbatim>\<open>changes_made\<close> left at \<^verbatim>\<open>False\<close>, and \<^verbatim>\<open>fix_file\<close>'s pass returns
  the same content. The reason is that no pattern of the script's table occurs anywhere in
  the output of a full pass. Inside a pass a later rule may still consume what an earlier
  rule produced, which is why the statement is about the output of the whole pass.
\<close>

theorem C1_idempotent:
  "rewrite_imports (fst (rewrite_imports content)) = (fst (rewrite_imports content), False)
   \<and> apply_fixes (apply_fixes content) = apply_fixes content
   \<and> list_all (\<lambda>(old_path, new_path).
        list_all (\<lambda>(old_pattern, new_pattern). \<not> str_in old_pattern (fst (rewrite_imports content)))
          (patterns old_path new_path)) IMPORT_MAP
   \<and> list_all (\<lambda>(pattern, replacement). \<not> re_search pattern (apply_fixes content)) FIXES"
proof -
  have 1: "rewrite_imports (fst (rewrite_imports content)) = (fst (rewrite_imports content), False)"
    by (rule rewrite_imports_untouched[OF rewrite_imports_clean])
  have 2: "apply_fixes (apply_fixes content) = apply_fixes content"
    by (rule apply_fixes_untouched[OF apply_fixes_clean])
  have 3: "list_all (\<lambda>(old_path, new_path).
        list_all (\<lambda>(old_pattern, new_pattern). \<not> str_in old_pattern (fst (rewrite_imports content)))
          (patterns old_path new_path)) IMPORT_MAP"
    using rewrite_imports_clean[of content]
    by (auto simp: list_all_iff list_ex_iff occurs_def patterns_def)
  from 1 2 3 apply_fixes_clean[of content] show ?thesis by blast
qed

text \<open>
  Claim C1 as worded also says that no rule matches a new-path string that a rule has
  produced. The table of \<^verbatim>\<open>fix-imports.py\<close> has such a pair: the entry for
  \<^verbatim>\<open>./user-history-utils\<close> produces \<^verbatim>\<open>from './user/user-history-utils'\<close>, its new
  pattern, and the old pattern of the next entry occurs in that text: the next entry
  rewrites it again, and so does a whole pass.
\<close>

theorem C1_counterexample:
  "(''./user-history-utils'', ''./user/user-history-utils'') \<in> set IMPORT_MAP
   \<and> (''./user/user-history-utils'', ''../user/user-history-utils'') \<in> set IMPORT_MAP
   \<and> apply_entry (from_lit sq ''./user-history-utils'', False)
        (''./user-history-utils'', ''./user/user-history-utils'')
      = (snd (hd (patterns ''./user-history-utils'' ''./user/user-history-utils'')), True)
   \<and> str_in (fst (hd (patterns ''./user/user-history-utils'' ''../user/user-history-utils'')))
        (snd (hd (patterns ''./user-history-utils'' ''./user/user-history-utils'')))
   \<and> apply_entry (snd (hd (patterns ''./user-history-utils'' ''./user/user-history-utils'')), True)
        (''./user/user-history-utils'', ''../user/user-history-utils'')
      = (from_lit sq ''../user/user-history-utils'', True)
   \<and> fst (rewrite_imports (snd (hd (patterns ''./user-history-utils'' ''./user/user-history-utils''))))
      \<noteq> snd (hd (patterns ''./user-history-utils'' ''./user/user-history-utils''))"
  by code_simp

text \<open>
  Claim C2 (no-op preservation and conditional write-back). A readable file whose content
  matches no pattern of the script's table comes back from the per-file function with the
  result \<^verbatim>\<open>False\<close> and a world that differs from the one before only by the logged
  \<^verbatim>\<open>open(filepath, 'r')\<close>: same disk, nothing printed, nothing opened for writing; the loop
  body of \<^verbatim>\<open>main\<close> then prints no line for it and does not count it as fixed. In general
  the file is opened for writing exactly when it could be read and the final content
  differs from the content read.
\<close>

theorem C2_noop_and_write_back:
  "(read_error (disk w p) = None
      \<and> list_all (\<lambda>(pattern, replacement). \<not> re_search pattern (text_of (disk w p))) FIXES
     \<longrightarrow> fix_file w p = (False, w\<lparr>opened := opened w @ [(p, ''r'')]\<rparr>)
         \<and> visit_final (fixed, w) p =
             Inr (fixed, if str_in ''node_modules'' p \<or> str_in ''.next'' p then w
                         else w\<lparr>opened := opened w @ [(p, ''r'')]\<rparr>))
   \<and> (read_error (disk w p) = None
      \<and> list_all (\<lambda>(old_path, new_path).
            list_all (\<lambda>(old_pattern, new_pattern). \<not> str_in old_pattern (text_of (disk w p)))
              (patterns old_path new_path)) IMPORT_MAP
     \<longrightarrow> fix_imports_in_file w p = (False, w\<lparr>opened := opened w @ [(p, ''r'')]\<rparr>)
         \<and> visit_imports (total_files, fixed_files, w) p =
             Inr (total_files + 1, fixed_files, w\<lparr>opened := opened w @ [(p, ''r'')]\<rparr>))
   \<and> opened (snd (fix_file w p)) =
        opened w @ (p, ''r'') #
          (if read_error (disk w p) = None
              \<and> apply_fixes (text_of (disk w p)) \<noteq> text_of (disk w p)
           then [(p, ''w'')] else [])
   \<and> opened (snd (fix_imports_in_file w p)) =
        opened w @ (p, ''r'') #
          (if read_error (disk w p) = None
              \<and> fst (rewrite_imports (text_of (disk w p))) \<noteq> text_of (disk w p)
           then [(p, ''w'')] else [])"
proof -
  have 1: "fix_file w p = (False, w\<lparr>opened := opened w @ [(p, ''r'')]\<rparr>)
         \<and> visit_final (fixed, w) p =
             Inr (fixed, if str_in ''node_modules'' p \<or> str_in ''.next'' p then w
                         else w\<lparr>opened := opened w @ [(p, ''r'')]\<rparr>)"
    if r: "read_error (disk w p) = None"
      and n: "list_all (\<lambda>(pattern, replacement). \<not> re_search pattern (text_of (disk w p))) FIXES"
  proof -
    from fix_file_unchanged[OF r no_fix_matches[OF n]]
    have f: "fix_file w p = (False, w\<lparr>opened := opened w @ [(p, ''r'')]\<rparr>)" .
    with visit_final_unreported[of w p fixed] show ?thesis by simp
  qed
  have 2: "fix_imports_in_file w p = (False, w\<lparr>opened := opened w @ [(p, ''r'')]\<rparr>)
         \<and> visit_imports (total_files, fixed_files, w) p =
             Inr (total_files + 1, fixed_files, w\<lparr>opened := opened w @ [(p, ''r'')]\<rparr>)"
    if r: "read_error (disk w p) = None"
      and n: "list_all (\<lambda>(old_path, new_path).
            list_all (\<lambda>(old_pattern, new_pattern). \<not> str_in old_pattern (text_of (disk w p)))
              (patterns old_path new_path)) IMPORT_MAP"
  proof -
    from no_import_matches[OF n] have "fst (rewrite_imports (text_of (disk w p))) = text_of (disk w p)"
      by simp
    from fix_imports_unchanged[OF r this]
    have f: "fix_imports_in_file w p = (False, w\<lparr>opened := opened w @ [(p, ''r'')]\<rparr>)" .
    with visit_imports_unreported[of w p total_files fixed_files] show ?thesis by simp
  qed
  from 1 2 opened_fix_file[of w p] opened_fix_imports[of w p] show ?thesis by blast
qed

theorem C2_witness:
  "read_error (disk demo_world (ROOT @ ''/lib/clean.ts'')) = None
   \<and> list_all (\<lambda>(pattern, replacement).
        \<not> re_search pattern (text_of (disk demo_world (ROOT @ ''/lib/clean.ts'')))) FIXES
   \<and> list_all (\<lambda>(old_path, new_path).
        list_all (\<lambda>(old_pattern, new_pattern).
            \<not> str_in old_pattern (text_of (disk demo_world (ROOT @ ''/lib/clean.ts''))))
          (patterns old_path new_path)) IMPORT_MAP
   \<and> fix_file demo_world (ROOT @ ''/lib/clean.ts'')
       = (False, demo_world\<lparr>opened := [(ROOT @ ''/lib/clean.ts'', ''r'')]\<rparr>)
   \<and> visit_final (0, demo_world) (ROOT @ ''/lib/clean.ts'')
       = Inr (0, demo_world\<lparr>opened := [(ROOT @ ''/lib/clean.ts'', ''r'')]\<rparr>)
   \<and> fix_imports_in_file demo_world (ROOT @ ''/lib/clean.ts'')
       = (False, demo_world\<lparr>opened := [(ROOT @ ''/lib/clean.ts'', ''r'')]\<rparr>)
   \<and> visit_imports (0, 0, demo_world) (ROOT @ ''/lib/clean.ts'')
       = Inr (1, 0, demo_world\<lparr>opened := [(ROOT @ ''/lib/clean.ts'', ''r'')]\<rparr>)
   \<and> opened (snd (fix_file demo_world (ROOT @ ''/lib/readonly.ts'')))
       = [(ROOT @ ''/lib/readonly.ts'', ''r''), (ROOT @ ''/lib/readonly.ts'', ''w'')]
   \<and> opened (snd (fix_imports_in_file demo_world (ROOT @ ''/app/locked.ts'')))
       = [(ROOT @ ''/app/locked.ts'', ''r'')]"
proof -
  have h1: "read_error (disk demo_world (ROOT @ ''/lib/clean.ts'')) = None" by code_simp
  have h2: "list_all (\<lambda>(pattern, replacement).
        \<not> re_search pattern (text_of (disk demo_world (ROOT @ ''/lib/clean.ts'')))) FIXES"
    by code_simp
  have h3: "list_all (\<lambda>(old_path, new_path).
        list_all (\<lambda>(old_pattern, new_pattern).
            \<not> str_in old_pattern (text_of (disk demo_world (ROOT @ ''/lib/clean.ts''))))
          (patterns old_path new_path)) IMPORT_MAP"
    by code_simp
  have e0: "opened demo_world = []" by (simp add: demo_world_def)
  have h4: "\<not> (str_in ''node_modules'' (ROOT @ ''/lib/clean.ts'') \<or> str_in ''.next'' (ROOT @ ''/lib/clean.ts''))"
    by code_simp
  have h5: "read_error (disk demo_world (ROOT @ ''/lib/readonly.ts'')) = None
     \<and> apply_fixes (text_of (disk demo_world (ROOT @ ''/lib/readonly.ts'')))
         \<noteq> text_of (disk demo_world (ROOT @ ''/lib/readonly.ts''))"
    by code_simp
  have h6: "read_error (disk demo_world (ROOT @ ''/app/locked.ts'')) \<noteq> None" by code_simp
  from C2_noop_and_write_back[of demo_world "ROOT @ ''/lib/clean.ts''" 0 0 0] h1 h2 h3 h4 e0
  have a: "fix_file demo_world (ROOT @ ''/lib/clean.ts'')
       = (False, demo_world\<lparr>opened := [(ROOT @ ''/lib/clean.ts'', ''r'')]\<rparr>)
   \<and> visit_final (0, demo_world) (ROOT @ ''/lib/clean.ts'')
       = Inr (0, demo_world\<lparr>opened := [(ROOT @ ''/lib/clean.ts'', ''r'')]\<rparr>)
   \<and> fix_imports_in_file demo_world (ROOT @ ''/lib/clean.ts'')
       = (False, demo_world\<lparr>opened := [(ROOT @ ''/lib/clean.ts'', ''r'')]\<rparr>)
   \<and> visit_imports (0, 0, demo_world) (ROOT @ ''/lib/clean.ts'')
       = Inr (1, 0, demo_world\<lparr>opened := [(ROOT @ ''/lib/clean.ts'', ''r'')]\<rparr>)"
    by simp
  from C2_noop_and_write_back[of demo_world "ROOT @ ''/lib/readonly.ts''" 0 0 0] h5 e0
  have b: "opened (snd (fix_file demo_world (ROOT @ ''/lib/readonly.ts'')))
       = [(ROOT @ ''/lib/readonly.ts'', ''r''), (ROOT @ ''/lib/readonly.ts'', ''w'')]"
    by simp
  from C2_noop_and_write_back[of demo_world "ROOT @ ''/app/locked.ts''" 0 0 0] h6 e0
  have c: "opened (snd (fix_imports_in_file demo_world (ROOT @ ''/app/locked.ts'')))
       = [(ROOT @ ''/app/locked.ts'', ''r'')]"
    by simp
  from h1 h2 h3 a b c show ?thesis by blast
qed

text \<open>
  Claim C3 (quoting symmetry). In \<^verbatim>\<open>fix-imports.py\<close> an import of an old path, in either
  quote style, becomes an import of the entry's new path in the same quote style; the one
  entry left out is \<^verbatim>\<open>./user-history-utils\<close>, whose new path the next entry rewrites again.
  In \<^verbatim>\<open>final-import-fix.py\<close> every text that a rule's pattern matches in full, whatever
  its two quote characters, becomes the rule's replacement, and the replacement is always
  written with single quotes.
\<close>

theorem C3_quote_styles:
  "((old_path, new_path) \<in> set IMPORT_MAP \<and> old_path \<noteq> ''./user-history-utils''
      \<and> (q = sq \<or> q = dq) \<and> str_in (from_lit q old_path) content
     \<longrightarrow> str_in (from_lit q new_path) (fst (rewrite_imports content)))
   \<and> ((pattern, replacement) \<in> set FIXES \<and> re_fullmatch pattern x \<and> str_in x content'
     \<longrightarrow> str_in replacement (apply_fixes content')
         \<and> (\<exists>new_path. replacement = from_lit sq new_path))"
  using imports_rewritten[of old_path new_path q content]
    final_rewritten[of pattern replacement x content']
  by blast

theorem C3_witness:
  "(''@/lib/logger'', ''@/lib/logging/logger'') \<in> set IMPORT_MAP
   \<and> ''@/lib/logger'' \<noteq> ''./user-history-utils''
   \<and> str_in (from_lit dq ''@/lib/logger'') (''import { log } '' @ from_lit dq ''@/lib/logger'')
   \<and> str_in (from_lit dq ''@/lib/logging/logger'')
        (fst (rewrite_imports (''import { log } '' @ from_lit dq ''@/lib/logger'')))
   \<and> (from_re ''../../../../lib/auth-server'', from_lit sq ''@/lib/api-auth/auth-server'') \<in> set FIXES
   \<and> re_fullmatch (from_re ''../../../../lib/auth-server'') (from_lit dq ''../../../../lib/auth-server'')
   \<and> str_in (from_lit dq ''../../../../lib/auth-server'')
        (''import { auth } '' @ from_lit dq ''../../../../lib/auth-server'')
   \<and> str_in (from_lit sq ''@/lib/api-auth/auth-server'')
        (apply_fixes (''import { auth } '' @ from_lit dq ''../../../../lib/auth-server''))"
proof -
  have h1: "(''@/lib/logger'', ''@/lib/logging/logger'') \<in> set IMPORT_MAP" by code_simp
  have h2: "''@/lib/logger'' \<noteq> ''./user-history-utils''" by simp
  have h3: "str_in (from_lit dq ''@/lib/logger'') (''import { log } '' @ from_lit dq ''@/lib/logger'')"
    by code_simp
  have h4: "(from_re ''../../../../lib/auth-server'', from_lit sq ''@/lib/api-auth/auth-server'') \<in> set FIXES"
    by (simp add: FIXES_def)
  have h5: "re_fullmatch (from_re ''../../../../lib/auth-server'') (from_lit dq ''../../../../lib/auth-server'')"
    by code_simp
  have h6: "str_in (from_lit dq ''../../../../lib/auth-server'')
        (''import { auth } '' @ from_lit dq ''../../../../lib/auth-server'')"
    by code_simp
  from C3_quote_styles[of "''@/lib/logger''" "''@/lib/logging/logger''" dq
      "''import { log } '' @ from_lit dq ''@/lib/logger''"
      "from_re ''../../../../lib/auth-server''" "from_lit sq ''@/lib/api-auth/auth-server''"
      "from_lit dq ''../../../../lib/auth-server''"
      "''import { auth } '' @ from_lit dq ''../../../../lib/auth-server''"]
    h1 h2 h3 h4 h5 h6
  show ?thesis by blast
qed

text \<open>
  Claim C3 as worded fails twice. A double-quoted import matched by \<^verbatim>\<open>final-import-fix.py\<close>
  comes out single-quoted; and the new path of the \<^verbatim>\<open>./user-history-utils\<close> entry of
  \<^verbatim>\<open>fix-imports.py\<close> is not what the import ends up using.
\<close>

theorem C3_counterexample:
  "apply_fixes (''import X '' @ from_lit dq ''@/lib/program-metadata-cache'')
     = ''import X '' @ from_lit sq ''@/lib/solana/program-metadata-cache''
   \<and> \<not> str_in (from_lit dq ''@/lib/solana/program-metadata-cache'')
        (apply_fixes (''import X '' @ from_lit dq ''@/lib/program-metadata-cache''))
   \<and> (''./user-history-utils'', ''./user/user-history-utils'') \<in> set IMPORT_MAP
   \<and> \<not> str_in (from_lit sq ''./user/user-history-utils'')
        (fst (rewrite_imports (''import X '' @ from_lit sq ''./user-history-utils'')))"
  by code_simp






text \<open>
  Claim C6 (exit code), as the code has it. \<^verbatim>\<open>main\<close> of either script always returns, so
  the process ends with status 0 whether or not a file failed; nothing is written on
  standard error.
\<close>

theorem C6_exit_code:
  "exit_code (main_final w) = 0 \<and> exit_code (main_imports w) = 0
   \<and> (\<exists>w'. main_final w = Inr w' \<and> stderr w' = stderr w)
   \<and> (\<exists>w'. main_imports w = Inr w' \<and> stderr w' = stderr w)"
proof -
  have 1: "\<exists>w'. main_final w = Inr w' \<and> stderr w' = stderr w"
    by (rule main_final_facts[of w]) blast
  have 2: "\<exists>w'. main_imports w = Inr w' \<and> stderr w' = stderr w"
    by (rule main_imports_facts[of w]) blast
  from 1 2 show ?thesis by (auto simp: exit_code_def)
qed

theorem C6_witness:
  "exit_code (main_final demo_world) = 0 \<and> exit_code (main_imports demo_world) = 0
   \<and> (\<exists>w'. main_final demo_world = Inr w' \<and> stderr w' = stderr demo_world)
   \<and> (\<exists>w'. main_imports demo_world = Inr w' \<and> stderr w' = stderr demo_world)"
  by (rule C6_exit_code)

text \<open>
  Claim C6 as worded fails on the example tree: two files fail to process, yet both
  scripts end with status 0 and leave standard error empty; the failures are lines on
  standard output.
\<close>

theorem C6_counterexample:
  "read_error (disk demo_world (ROOT @ ''/app/locked.ts''))
     = Some (PermissionError ''[Errno 13] Permission denied'')
   \<and> ROOT @ ''/app/locked.ts'' \<in> set (final_files demo_world)
   \<and> exit_code (main_final demo_world) = 0
   \<and> (case main_final demo_world of
        Inl e \<Rightarrow> False
      | Inr w' \<Rightarrow>
          ''Error: '' @ ROOT @ ''/app/locked.ts: [Errno 13] Permission denied'' \<in> set (stdout w')
          \<and> stderr w' = [])
   \<and> exit_code (main_imports demo_world) = 0
   \<and> (case main_imports demo_world of
        Inl e \<Rightarrow> False
      | Inr w' \<Rightarrow>
          ''Error processing '' @ ROOT @ ''/app/locked.ts: [Errno 13] Permission denied''
             \<in> set (stdout w')
          \<and> stderr w' = [])"
proof -
  have h: "read_error (disk demo_world (ROOT @ ''/app/locked.ts''))
     = Some (PermissionError ''[Errno 13] Permission denied'')
   \<and> ROOT @ ''/app/locked.ts'' \<in> set (final_files demo_world)"
    by code_simp
  from demo_final_run have 1: "exit_code (main_final demo_world) = 0
   \<and> (case main_final demo_world of
        Inl e \<Rightarrow> False
      | Inr w' \<Rightarrow>
          ''Error: '' @ ROOT @ ''/app/locked.ts: [Errno 13] Permission denied'' \<in> set (stdout w')
          \<and> stderr w' = [])"
    by (cases "main_final demo_world") (simp_all add: exit_code_def)
  from demo_imports_run have 2: "exit_code (main_imports demo_world) = 0
   \<and> (case main_imports demo_world of
        Inl e \<Rightarrow> False
      | Inr w' \<Rightarrow>
          ''Error processing '' @ ROOT @ ''/app/locked.ts: [Errno 13] Permission denied''
             \<in> set (stdout w')
          \<and> stderr w' = [])"
    by (cases "main_imports demo_world") (simp_all add: exit_code_def)
  from h 1 2 show ?thesis by blast
qed

text \<open>
  Claim C7 (end-to-end example), as the code has it. \<^verbatim>\<open>final-import-fix.py\<close> turns a content
  that holds \<^verbatim>\<open>from '../../../lib/solana-connection-server'\<close> into one that holds
  \<^verbatim>\<open>from '@/lib/solana/solana-connection-server'\<close>; \<^verbatim>\<open>fix-imports.py\<close> turns a content that
  holds \<^verbatim>\<open>from '@/lib/feed-cache'\<close> into one that holds \<^verbatim>\<open>from '@/lib/caching/feed-cache'\<close>; and a
  readable file whose content matches no pattern of the script's table is left as it is,
  the per-file function returns \<^verbatim>\<open>False\<close>, and the loop body of \<^verbatim>\<open>main\<close> prints nothing
  for it.
\<close>

theorem C7_end_to_end:
  "(str_in (from_lit sq ''../../../lib/solana-connection-server'') content
     \<longrightarrow> str_in (from_lit sq ''@/lib/solana/solana-connection-server'') (apply_fixes content))
   \<and> (str_in (from_lit sq ''@/lib/feed-cache'') content
     \<longrightarrow> str_in (from_lit sq ''@/lib/caching/feed-cache'') (fst (rewrite_imports content)))
   \<and> (list_all (\<lambda>(pattern, replacement). \<not> re_search pattern content) FIXES
        \<and> read_error (disk w p) = None \<and> text_of (disk w p) = content
     \<longrightarrow> apply_fixes content = content
         \<and> fst (fix_file w p) = False
         \<and> disk (snd (fix_file w p)) = disk w
         \<and> (\<exists>w'. visit_final (fixed, w) p = Inr (fixed, w') \<and> stdout w' = stdout w))
   \<and> (list_all (\<lambda>(old_path, new_path).
          list_all (\<lambda>(old_pattern, new_pattern). \<not> str_in old_pattern content)
            (patterns old_path new_path)) IMPORT_MAP
        \<and> read_error (disk w p) = None \<and> text_of (disk w p) = content
     \<longrightarrow> rewrite_imports content = (content, False)
         \<and> fst (fix_imports_in_file w p) = False
         \<and> disk (snd (fix_imports_in_file w p)) = disk w
         \<and> (\<exists>w'. visit_imports (total_files, fixed_files, w) p
                    = Inr (total_files + 1, fixed_files, w') \<and> stdout w' = stdout w))"
proof -
  have 1: "str_in (from_lit sq ''@/lib/solana/solana-connection-server'') (apply_fixes content)"
    if "str_in (from_lit sq ''../../../lib/solana-connection-server'') content"
  proof -
    have m: "(from_re ''../../../lib/solana-connection-server'',
              from_lit sq ''@/lib/solana/solana-connection-server'') \<in> set FIXES"
      by (simp add: FIXES_def)
    have f: "re_fullmatch (from_re ''../../../lib/solana-connection-server'')
               (from_lit sq ''../../../lib/solana-connection-server'')"
      by (simp add: re_fullmatch_def from_re_def from_lit_def)
    from final_rewritten[OF m f that] show ?thesis by simp
  qed
  have 2: "str_in (from_lit sq ''@/lib/caching/feed-cache'') (fst (rewrite_imports content))"
    if "str_in (from_lit sq ''@/lib/feed-cache'') content"
  proof -
    have m: "(''@/lib/feed-cache'', ''@/lib/caching/feed-cache'') \<in> set IMPORT_MAP"
      by (simp add: IMPORT_MAP_def)
    from imports_rewritten[OF m _ _ that] show ?thesis by simp
  qed
  have 3: "apply_fixes content = content
         \<and> fst (fix_file w p) = False
         \<and> disk (snd (fix_file w p)) = disk w
         \<and> (\<exists>w'. visit_final (fixed, w) p = Inr (fixed, w') \<and> stdout w' = stdout w)"
    if n: "list_all (\<lambda>(pattern, replacement). \<not> re_search pattern content) FIXES"
      and r: "read_error (disk w p) = None" and t: "text_of (disk w p) = content"
  proof -
    from no_fix_matches[OF n] have a: "apply_fixes content = content" .
    with fix_file_unchanged[OF r] t
    have f: "fix_file w p = (False, w\<lparr>opened := opened w @ [(p, ''r'')]\<rparr>)" by simp
    with visit_final_unreported[of w p fixed] a show ?thesis by simp
  qed
  have 4: "rewrite_imports content = (content, False)
         \<and> fst (fix_imports_in_file w p) = False
         \<and> disk (snd (fix_imports_in_file w p)) = disk w
         \<and> (\<exists>w'. visit_imports (total_files, fixed_files, w) p
                    = Inr (total_files + 1, fixed_files, w') \<and> stdout w' = stdout w)"
    if n: "list_all (\<lambda>(old_path, new_path).
          list_all (\<lambda>(old_pattern, new_pattern). \<not> str_in old_pattern content)
            (patterns old_path new_path)) IMPORT_MAP"
      and r: "read_error (disk w p) = None" and t: "text_of (disk w p) = content"
  proof -
    from no_import_matches[OF n] have a: "rewrite_imports content = (content, False)" .
    with fix_imports_unchanged[OF r] t
    have f: "fix_imports_in_file w p = (False, w\<lparr>opened := opened w @ [(p, ''r'')]\<rparr>)" by simp
    with visit_imports_unreported[of w p total_files fixed_files] a show ?thesis by simp
  qed
  from 1 2 3 4 show ?thesis by blast
qed

theorem C7_witness:
  "str_in (from_lit sq ''../../../lib/solana-connection-server'')
     (text_of (disk demo_world (ROOT @ ''/app/api/route.ts'')))
   \<and> str_in (from_lit sq ''@/lib/solana/solana-connection-server'')
       (apply_fixes (text_of (disk demo_world (ROOT @ ''/app/api/route.ts''))))
   \<and> str_in (from_lit sq ''@/lib/feed-cache'') (''import { a } '' @ from_lit sq ''@/lib/feed-cache'')
   \<and> str_in (from_lit sq ''@/lib/caching/feed-cache'')
       (fst (rewrite_imports (''import { a } '' @ from_lit sq ''@/lib/feed-cache'')))
   \<and> read_error (disk demo_world (ROOT @ ''/lib/clean.ts'')) = None
   \<and> text_of (disk demo_world (ROOT @ ''/lib/clean.ts'')) = ''export const x = 1;''
   \<and> apply_fixes ''export const x = 1;'' = ''export const x = 1;''
   \<and> rewrite_imports ''export const x = 1;'' = (''export const x = 1;'', False)
   \<and> fst (fix_file demo_world (ROOT @ ''/lib/clean.ts'')) = False
   \<and> fst (fix_imports_in_file demo_world (ROOT @ ''/lib/clean.ts'')) = False
   \<and> disk (snd (fix_file demo_world (ROOT @ ''/lib/clean.ts''))) = disk demo_world
   \<and> disk (snd (fix_imports_in_file demo_world (ROOT @ ''/lib/clean.ts''))) = disk demo_world"
proof -
  have a1: "str_in (from_lit sq ''../../../lib/solana-connection-server'')
     (text_of (disk demo_world (ROOT @ ''/app/api/route.ts'')))"
    by code_simp
  have a2: "str_in (from_lit sq ''@/lib/feed-cache'') (''import { a } '' @ from_lit sq ''@/lib/feed-cache'')"
    by code_simp
  have a3: "read_error (disk demo_world (ROOT @ ''/lib/clean.ts'')) = None
     \<and> text_of (disk demo_world (ROOT @ ''/lib/clean.ts'')) = ''export const x = 1;''"
    by code_simp
  have a4: "list_all (\<lambda>(pattern, replacement). \<not> re_search pattern ''export const x = 1;'') FIXES"
    by code_simp
  have a5: "list_all (\<lambda>(old_path, new_path).
          list_all (\<lambda>(old_pattern, new_pattern). \<not> str_in old_pattern ''export const x = 1;'')
            (patterns old_path new_path)) IMPORT_MAP"
    by code_simp
  from C7_end_to_end[of "text_of (disk demo_world (ROOT @ ''/app/api/route.ts''))"] a1
  have b1: "str_in (from_lit sq ''@/lib/solana/solana-connection-server'')
       (apply_fixes (text_of (disk demo_world (ROOT @ ''/app/api/route.ts''))))"
    by blast
  from C7_end_to_end[of "''import { a } '' @ from_lit sq ''@/lib/feed-cache''"] a2
  have b2: "str_in (from_lit sq ''@/lib/caching/feed-cache'')
       (fst (rewrite_imports (''import { a } '' @ from_lit sq ''@/lib/feed-cache'')))"
    by blast
  from C7_end_to_end[of "''export const x = 1;''" demo_world "ROOT @ ''/lib/clean.ts''" 0 0 0] a3 a4 a5
  have b3: "apply_fixes ''export const x = 1;'' = ''export const x = 1;''
   \<and> rewrite_imports ''export const x = 1;'' = (''export const x = 1;'', False)
   \<and> fst (fix_file demo_world (ROOT @ ''/lib/clean.ts'')) = False
   \<and> fst (fix_imports_in_file demo_world (ROOT @ ''/lib/clean.ts'')) = False
   \<and> disk (snd (fix_file demo_world (ROOT @ ''/lib/clean.ts''))) = disk demo_world
   \<and> disk (snd (fix_imports_in_file demo_world (ROOT @ ''/lib/clean.ts''))) = disk demo_world"
    by blast
  from a1 a2 a3 b1 b2 b3 show ?thesis by blast
qed

text \<open>
  Claim C7 as worded asks only that the content hold neither of the two example patterns.
  The content below holds neither, yet it matches another entry of \<^verbatim>\<open>IMPORT_MAP\<close>:
  \<^verbatim>\<open>fix-imports.py\<close> rewrites it and reports the file as fixed. Nor does one script perform
  both rewrites of the example: each leaves the other's import as it is.
\<close>

theorem C7_counterexample:
  "\<not> str_in (from_lit sq ''../../../lib/solana-connection-server'')
       (text_of (disk demo_world (ROOT @ ''/lib/log.ts'')))
   \<and> \<not> str_in (from_lit sq ''@/lib/feed-cache'') (text_of (disk demo_world (ROOT @ ''/lib/log.ts'')))
   \<and> text_of (disk demo_world (ROOT @ ''/lib/log.ts'')) = ''import { l } '' @ from_lit sq ''@/lib/logger''
   \<and> fix_imports_in_file demo_world (ROOT @ ''/lib/log.ts'')
       = (True, demo_world
            \<lparr>opened := [(ROOT @ ''/lib/log.ts'', ''r''), (ROOT @ ''/lib/log.ts'', ''w'')],
             disk := (disk demo_world)(ROOT @ ''/lib/log.ts'' :=
               readable_file (''import { l } '' @ from_lit sq ''@/lib/logging/logger''))\<rparr>)
   \<and> (case visit_imports (0, 0, demo_world) (ROOT @ ''/lib/log.ts'') of
         Inl e \<Rightarrow> False
       | Inr (total_files, fixed_files, w') \<Rightarrow>
           fixed_files = 1 \<and> stdout w' = [check_mark @ '' Fixed: lib/log.ts''])
   \<and> rewrite_imports (''import { c } '' @ from_lit sq ''../../../lib/solana-connection-server'')
       = (''import { c } '' @ from_lit sq ''../../../lib/solana-connection-server'', False)
   \<and> apply_fixes (''import { a } '' @ from_lit sq ''@/lib/feed-cache'')
       = ''import { a } '' @ from_lit sq ''@/lib/feed-cache''"
proof -
  let ?p = "ROOT @ ''/lib/log.ts''"
  have x: "rewrite_imports (''import { c } '' @ from_lit sq ''../../../lib/solana-connection-server'')
       = (''import { c } '' @ from_lit sq ''../../../lib/solana-connection-server'', False)
   \<and> apply_fixes (''import { a } '' @ from_lit sq ''@/lib/feed-cache'')
       = ''import { a } '' @ from_lit sq ''@/lib/feed-cache''"
    by code_simp
  have r: "read_error (disk demo_world ?p) = None" and wr: "write_error (disk demo_world ?p) = None"
    by code_simp+
  have t: "text_of (disk demo_world ?p) = ''import { l } '' @ from_lit sq ''@/lib/logger''"
    by code_simp
  have n: "\<not> str_in (from_lit sq ''../../../lib/solana-connection-server'')
             (''import { l } '' @ from_lit sq ''@/lib/logger'')
         \<and> \<not> str_in (from_lit sq ''@/lib/feed-cache'') (''import { l } '' @ from_lit sq ''@/lib/logger'')"
    by code_simp
  have c: "fst (rewrite_imports (''import { l } '' @ from_lit sq ''@/lib/logger''))
            = ''import { l } '' @ from_lit sq ''@/lib/logging/logger''"
    by code_simp
  have d: "disk demo_world ?p = readable_file (''import { l } '' @ from_lit sq ''@/lib/logger'')"
    by code_simp
  have ne: "''import { l } '' @ from_lit sq ''@/lib/logging/logger''
             \<noteq> ''import { l } '' @ from_lit sq ''@/lib/logger''"
    by (simp add: from_lit_def)
  have o: "opened demo_world = []" "stdout demo_world = []" by (simp_all add: demo_world_def)
  from fix_imports_written[OF r _ wr] t c ne d o
  have f: "fix_imports_in_file demo_world ?p
       = (True, demo_world
            \<lparr>opened := [(?p, ''r''), (?p, ''w'')],
             disk := (disk demo_world)(?p :=
               readable_file (''import { l } '' @ from_lit sq ''@/lib/logging/logger''))\<rparr>)"
    by (simp add: readable_file_def)
  have rel: "relative_to ?p root = Inr ''lib/log.ts''"
    by (simp add: relative_to_def root_def ROOT_def)
  from f rel o have v: "(case visit_imports (0, 0, demo_world) ?p of
         Inl e \<Rightarrow> False
       | Inr (total_files, fixed_files, w') \<Rightarrow>
           fixed_files = 1 \<and> stdout w' = [check_mark @ '' Fixed: lib/log.ts''])"
    by (simp add: visit_imports_def print_def)
  from n t f v x show ?thesis by simp
qed

text \<open>
  Claim C8 (exclusion respected). In a run of \<^verbatim>\<open>final-import-fix.py\<close> every file opened,
  for reading or for writing, has a path that contains neither \<^verbatim>\<open>node_modules\<close> nor
  \<^verbatim>\<open>.next\<close>. A file below a directory of one of these two names is therefore never opened,
  and its entry on the disk after the run is the one before the run, whatever its content.
\<close>

theorem C8_exclusion:
  "\<exists>w' log. main_final w = Inr w' \<and> opened w' = opened w @ log
     \<and> (\<forall>x m. (x, m) \<in> set log \<longrightarrow> \<not> str_in ''node_modules'' x \<and> \<not> str_in ''.next'' x)
     \<and> (\<forall>x. str_in ''/node_modules/'' x \<or> str_in ''/.next/'' x \<longrightarrow>
           (x, ''r'') \<notin> set log \<and> (x, ''w'') \<notin> set log \<and> disk w' x = disk w x)"
proof -
  obtain w' lines log where f: "main_final w = Inr w'"
    "opened w' = opened w @ log"
    "\<forall>x m. (x, m) \<in> set log \<longrightarrow> x \<in> set (final_files w) \<and> \<not> excluded x"
    "\<forall>x. excluded x \<longrightarrow> disk w' x = disk w x"
    by (rule main_final_facts[of w]) blast
  have a: "\<forall>x m. (x, m) \<in> set log \<longrightarrow> \<not> str_in ''node_modules'' x \<and> \<not> str_in ''.next'' x"
    using f(3) by (auto simp: excluded_def)
  have b: "\<forall>x. str_in ''/node_modules/'' x \<or> str_in ''/.next/'' x \<longrightarrow>
           (x, ''r'') \<notin> set log \<and> (x, ''w'') \<notin> set log \<and> disk w' x = disk w x"
    using f(3,4) excluded_dir by blast
  from f(1,2) a b show ?thesis by blast
qed

theorem C8_witness:
  "str_in ''/node_modules/'' (ROOT @ ''/app/node_modules/pkg/index.ts'')
   \<and> ROOT @ ''/app/node_modules/pkg/index.ts'' \<in> set (final_files demo_world)
   \<and> apply_fixes (text_of (disk demo_world (ROOT @ ''/app/node_modules/pkg/index.ts'')))
       \<noteq> text_of (disk demo_world (ROOT @ ''/app/node_modules/pkg/index.ts''))
   \<and> (\<exists>w' log. main_final demo_world = Inr w' \<and> opened w' = opened demo_world @ log
         \<and> (ROOT @ ''/app/node_modules/pkg/index.ts'', ''r'') \<notin> set log
         \<and> (ROOT @ ''/app/node_modules/pkg/index.ts'', ''w'') \<notin> set log
         \<and> disk w' (ROOT @ ''/app/node_modules/pkg/index.ts'')
             = disk demo_world (ROOT @ ''/app/node_modules/pkg/index.ts''))"
proof -
  let ?p = "ROOT @ ''/app/node_modules/pkg/index.ts''"
  have h: "str_in ''/node_modules/'' ?p \<and> ?p \<in> set (final_files demo_world)
     \<and> apply_fixes (text_of (disk demo_world ?p)) \<noteq> text_of (disk demo_world ?p)"
    by code_simp
  from C8_exclusion[of demo_world] obtain w' log where
    r: "main_final demo_world = Inr w'" "opened w' = opened demo_world @ log"
    and x: "\<forall>x. str_in ''/node_modules/'' x \<or> str_in ''/.next/'' x \<longrightarrow>
           (x, ''r'') \<notin> set log \<and> (x, ''w'') \<notin> set log \<and> disk w' x = disk demo_world x"
    by blast
  from x h have "(?p, ''r'') \<notin> set log \<and> (?p, ''w'') \<notin> set log \<and> disk w' ?p = disk demo_world ?p"
    by blast
  with h r show ?thesis by blast
qed

text \<open>
  Claim C9 (sequential rule chaining). The entry for \<^verbatim>\<open>./user-history-utils\<close> is the
  twentieth of \<^verbatim>\<open>IMPORT_MAP\<close> and the entry for \<^verbatim>\<open>./user/user-history-utils\<close> the
  twenty-first. A content that holds an import of \<^verbatim>\<open>./user-history-utils\<close>, in either quote
  style, holds an import of \<^verbatim>\<open>./user/user-history-utils\<close> once the first twenty entries have
  been applied, and an import of \<^verbatim>\<open>../user/user-history-utils\<close> at the end of the same pass;
  no import of \<^verbatim>\<open>./user/user-history-utils\<close> is left. A readable and writable file with such
  a content is rewritten by one call of \<^verbatim>\<open>fix_imports_in_file\<close>, which returns \<^verbatim>\<open>True\<close>.
\<close>

theorem C9_chained_rules:
  assumes "q = sq \<or> q = dq"
    and "str_in (from_lit q ''./user-history-utils'') content"
  shows "IMPORT_MAP ! 19 = (''./user-history-utils'', ''./user/user-history-utils'')
    \<and> IMPORT_MAP ! 20 = (''./user/user-history-utils'', ''../user/user-history-utils'')
    \<and> str_in (from_lit q ''./user/user-history-utils'')
         (fst (foldl apply_entry (content, False) (take 20 IMPORT_MAP)))
    \<and> str_in (from_lit q ''../user/user-history-utils'') (fst (rewrite_imports content))
    \<and> \<not> str_in (from_lit q ''./user/user-history-utils'') (fst (rewrite_imports content))
    \<and> (read_error (disk w p) = None \<and> write_error (disk w p) = None
          \<and> text_of (disk w p) = content
        \<longrightarrow> fst (fix_imports_in_file w p)
            \<and> text_of (disk (snd (fix_imports_in_file w p)) p) = fst (rewrite_imports content))"
proof -
  have q: "is_quote q" using assms(1) by (simp add: is_quote_def)
  have pl: "plain ''./user-history-utils''" by (simp add: is_quote_def)
  have 1: "IMPORT_MAP ! 19 = (''./user-history-utils'', ''./user/user-history-utils'')
    \<and> IMPORT_MAP ! 20 = (''./user/user-history-utils'', ''../user/user-history-utils'')"
    by (simp add: IMPORT_MAP_def)
  have 2: "str_in (from_lit q ''./user/user-history-utils'')
         (fst (foldl apply_entry (content, False) (take 20 IMPORT_MAP)))"
    using imports_route[OF q pl assms(2), of 20 False] history_route_20 assms(1)
    by (auto simp: shown_def from_lit_from_str)
  have 3: "str_in (from_lit q ''../user/user-history-utils'') (fst (rewrite_imports content))"
    using imports_route[OF q pl assms(2), of 21 False] history_route_21 assms(1)
    by (auto simp: shown_def from_lit_from_str take_21_IMPORT_MAP rewrite_imports_def)
  have m: "(''./user/user-history-utils'', ''../user/user-history-utils'') \<in> set IMPORT_MAP"
    by (simp add: IMPORT_MAP_def)
  have 4: "\<not> str_in (from_lit q ''./user/user-history-utils'') (fst (rewrite_imports content))"
    using rewrite_imports_clean[of content] m assms(1)
    by (auto simp: list_ex_iff occurs_def)
  have 5: "fst (fix_imports_in_file w p)
            \<and> text_of (disk (snd (fix_imports_in_file w p)) p) = fst (rewrite_imports content)"
    if r: "read_error (disk w p) = None" and wr: "write_error (disk w p) = None"
      and t: "text_of (disk w p) = content"
  proof -
    have "(''./user-history-utils'', ''./user/user-history-utils'') \<in> set IMPORT_MAP"
      by (simp add: IMPORT_MAP_def)
    moreover have "occurs content (''./user-history-utils'', ''./user/user-history-utils'')"
      using assms by (auto simp: occurs_def)
    ultimately have "list_ex (occurs content) IMPORT_MAP"
      unfolding list_ex_iff by blast
    with rewrite_imports_clean[of content] have "fst (rewrite_imports content) \<noteq> content" by auto
    with fix_imports_written[OF r _ wr] t show ?thesis by simp
  qed
  from 1 2 3 4 5 show ?thesis by blast
qed

theorem C9_witness:
  "str_in (from_lit sq ''./user-history-utils'') (text_of (disk demo_world (ROOT @ ''/lib/utils/history.ts'')))
   \<and> read_error (disk demo_world (ROOT @ ''/lib/utils/history.ts'')) = None
   \<and> write_error (disk demo_world (ROOT @ ''/lib/utils/history.ts'')) = None
   \<and> str_in (from_lit sq ''./user/user-history-utils'')
        (fst (foldl apply_entry (text_of (disk demo_world (ROOT @ ''/lib/utils/history.ts'')), False)
               (take 20 IMPORT_MAP)))
   \<and> str_in (from_lit sq ''../user/user-history-utils'')
        (fst (rewrite_imports (text_of (disk demo_world (ROOT @ ''/lib/utils/history.ts'')))))
   \<and> \<not> str_in (from_lit sq ''./user/user-history-utils'')
        (fst (rewrite_imports (text_of (disk demo_world (ROOT @ ''/lib/utils/history.ts'')))))
   \<and> fst (fix_imports_in_file demo_world (ROOT @ ''/lib/utils/history.ts''))
   \<and> text_of (disk (snd (fix_imports_in_file demo_world (ROOT @ ''/lib/utils/history.ts'')))
        (ROOT @ ''/lib/utils/history.ts''))
      = ''import { h } '' @ from_lit sq ''../user/user-history-utils''"
proof -
  let ?p = "ROOT @ ''/lib/utils/history.ts''"
  have h1: "str_in (from_lit sq ''./user-history-utils'') (text_of (disk demo_world ?p))"
    by code_simp
  have h2: "read_error (disk demo_world ?p) = None \<and> write_error (disk demo_world ?p) = None"
    by code_simp
  have h3: "fst (rewrite_imports (text_of (disk demo_world ?p)))
      = ''import { h } '' @ from_lit sq ''../user/user-history-utils''"
    by code_simp
  from C9_chained_rules[of sq "text_of (disk demo_world ?p)" demo_world ?p] h1 h2 h3
  show ?thesis by simp
qed

text \<open>
  Claim C10 (substring-based exclusion). The loop body of \<^verbatim>\<open>final-import-fix.py\<close> does
  nothing at all for a path whose text contains \<^verbatim>\<open>node_modules\<close> or \<^verbatim>\<open>.next\<close> anywhere: it
  returns the counter and the world it was given, and after a whole run such a file is as
  it was and has not been opened. The test is on the text of the path, not on its segments:
  \<^verbatim>\<open>app/app.next.tsx\<close> below the root matches \<^verbatim>\<open>*.tsx\<close>, lies in no directory named
  \<^verbatim>\<open>.next\<close> or \<^verbatim>\<open>node_modules\<close>, and is skipped.
\<close>

theorem C10_substring_exclusion:
  "(str_in ''node_modules'' p \<or> str_in ''.next'' p \<longrightarrow> visit_final (fixed, w) p = Inr (fixed, w))
   \<and> (\<exists>w' log. main_final w = Inr w' \<and> opened w' = opened w @ log
        \<and> (\<forall>x. str_in ''node_modules'' x \<or> str_in ''.next'' x \<longrightarrow>
              disk w' x = disk w x \<and> (x, ''r'') \<notin> set log \<and> (x, ''w'') \<notin> set log))
   \<and> name_of (ROOT @ ''/app/app.next.tsx'') = ''app.next.tsx''
   \<and> fnmatch ''app.next.tsx'' ''*.tsx''
   \<and> \<not> str_in ''/.next/'' (ROOT @ ''/app/app.next.tsx'')
   \<and> \<not> str_in ''/node_modules/'' (ROOT @ ''/app/app.next.tsx'')
   \<and> visit_final (fixed, w) (ROOT @ ''/app/app.next.tsx'') = Inr (fixed, w)"
proof -
  have 1: "str_in ''node_modules'' p \<or> str_in ''.next'' p \<longrightarrow> visit_final (fixed, w) p = Inr (fixed, w)"
    by (simp add: visit_final_def)
  have 2: "\<exists>w' log. main_final w = Inr w' \<and> opened w' = opened w @ log
        \<and> (\<forall>x. str_in ''node_modules'' x \<or> str_in ''.next'' x \<longrightarrow>
              disk w' x = disk w x \<and> (x, ''r'') \<notin> set log \<and> (x, ''w'') \<notin> set log)"
  proof -
    obtain w' lines log where f: "main_final w = Inr w'"
      "opened w' = opened w @ log"
      "\<forall>x m. (x, m) \<in> set log \<longrightarrow> x \<in> set (final_files w) \<and> \<not> excluded x"
      "\<forall>x. excluded x \<longrightarrow> disk w' x = disk w x"
      by (rule main_final_facts[of w]) blast
    have "\<forall>x. str_in ''node_modules'' x \<or> str_in ''.next'' x \<longrightarrow>
              disk w' x = disk w x \<and> (x, ''r'') \<notin> set log \<and> (x, ''w'') \<notin> set log"
      using f(3,4) by (auto simp: excluded_def)
    with f(1,2) show ?thesis by blast
  qed
  have 3: "name_of (ROOT @ ''/app/app.next.tsx'') = ''app.next.tsx''
   \<and> fnmatch ''app.next.tsx'' ''*.tsx''
   \<and> \<not> str_in ''/.next/'' (ROOT @ ''/app/app.next.tsx'')
   \<and> \<not> str_in ''/node_modules/'' (ROOT @ ''/app/app.next.tsx'')
   \<and> str_in ''.next'' (ROOT @ ''/app/app.next.tsx'')"
    by code_simp
  then have 4: "visit_final (fixed, w) (ROOT @ ''/app/app.next.tsx'') = Inr (fixed, w)"
    by (simp add: visit_final_def)
  from 1 2 3 4 show ?thesis by blast
qed

theorem C10_witness:
  "str_in ''.next'' (ROOT @ ''/app/app.next.tsx'')
   \<and> ROOT @ ''/app/app.next.tsx'' \<in> set (final_files demo_world)
   \<and> apply_fixes (text_of (disk demo_world (ROOT @ ''/app/app.next.tsx'')))
       \<noteq> text_of (disk demo_world (ROOT @ ''/app/app.next.tsx''))
   \<and> visit_final (0, demo_world) (ROOT @ ''/app/app.next.tsx'') = Inr (0, demo_world)
   \<and> (\<exists>w' log. main_final demo_world = Inr w' \<and> opened w' = opened demo_world @ log
         \<and> disk w' (ROOT @ ''/app/app.next.tsx'') = disk demo_world (ROOT @ ''/app/app.next.tsx'')
         \<and> (ROOT @ ''/app/app.next.tsx'', ''r'') \<notin> set log
         \<and> (ROOT @ ''/app/app.next.tsx'', ''w'') \<notin> set log)"
proof -
  let ?p = "ROOT @ ''/app/app.next.tsx''"
  have h: "str_in ''.next'' ?p \<and> ?p \<in> set (final_files demo_world)
     \<and> apply_fixes (text_of (disk demo_world ?p)) \<noteq> text_of (disk demo_world ?p)"
    by code_simp
  from C10_substring_exclusion[of ?p 0 demo_world] h
  have v: "visit_final (0, demo_world) ?p = Inr (0, demo_world)" by blast
  from C10_substring_exclusion[of ?p 0 demo_world] obtain w' log where
    r: "main_final demo_world = Inr w'" "opened w' = opened demo_world @ log"
    and x: "\<forall>x. str_in ''node_modules'' x \<or> str_in ''.next'' x \<longrightarrow>
              disk w' x = disk demo_world x \<and> (x, ''r'') \<notin> set log \<and> (x, ''w'') \<notin> set log"
    by blast
  from x h have "disk w' ?p = disk demo_world ?p \<and> (?p, ''r'') \<notin> set log \<and> (?p, ''w'') \<notin> set log"
    by blast
  with h v r show ?thesis by blast
qed

end
